theory Spec2Isabelle
  imports Complex_Main "HOL-Library.Log_Nat"
begin

section \<open>Fake Text Story: reveal schedule, export clock and export pipeline\<close>

text \<open>
  A shallow embedding of the timeline and export code of \<^verbatim>\<open>src/App.tsx\<close>:
  the reveal schedule and the visible-message count of \<^verbatim>\<open>FakeTextPreview\<close>,
  its timeline runner, the chat rows it renders, and the export routine
  \<^verbatim>\<open>exportMp4Exact\<close> with its speech synthesis and frame capture loops.
\<close>

subsection \<open>JavaScript numbers\<close>

text \<open>
  A JavaScript number is a double: a finite value, one of the two infinities, or NaN.
  A finite value is given by the rational it stands for; the sign of zero is not
  modelled. A product is rounded as the code's multiplication rounds it: to the
  nearest double, a tie going to the even significand, and to an infinity beyond
  the largest double. Sums and differences are taken exactly: the sums of the code
  are sums of whole milliseconds, which doubles add exactly below \<open>2 ^ 53\<close>.
\<close>

datatype jsnum = Fin rat | PInf | NInf | NaN

text \<open>
  The binary exponent of a positive rational \<open>x\<close>: the \<open>e\<close> with
  \<open>2 ^ e \<le> x < 2 ^ (e + 1)\<close> (lemma \<open>binary_exponent_bounds\<close> below), read off
  the bit length of the integer part, or of the reciprocal when \<open>x\<close> is below 1.
\<close>

definition binary_exponent :: "rat \<Rightarrow> int" where
  "binary_exponent x = (if 1 \<le> x then bitlen \<lfloor>x\<rfloor> - 1 else - bitlen (\<lceil>1 / x\<rceil> - 1))"

text \<open>Rounding to the nearest integer, a tie going to the even one.\<close>

definition round_half_even :: "rat \<Rightarrow> int" where
  "round_half_even y =
     (if y - of_int \<lfloor>y\<rfloor> < 1 / 2 then \<lfloor>y\<rfloor>
      else if 1 / 2 < y - of_int \<lfloor>y\<rfloor> then \<lfloor>y\<rfloor> + 1
      else if even \<lfloor>y\<rfloor> then \<lfloor>y\<rfloor> else \<lfloor>y\<rfloor> + 1)"

text \<open>
  The spacing of the doubles around a positive rational: 53 significant bits, and
  \<open>2 ^ -1074\<close> in the subnormal range. The nearest double is the nearest multiple of
  the spacing.
\<close>

definition quantum :: "rat \<Rightarrow> rat" where
  "quantum a = 2 powi (max (binary_exponent a - 52) (- 1074))"

definition nearest_double :: "rat \<Rightarrow> rat" where
  "nearest_double a = of_int (round_half_even (a / quantum a)) * quantum a"

text \<open>
  The double that an exact result is rounded to. A magnitude of at least
  \<open>2 ^ 1024 - 2 ^ 970\<close>, half a spacing above the largest double, gives an infinity.
\<close>

definition to_double :: "rat \<Rightarrow> jsnum" where
  "to_double x =
     (if x = 0 then Fin 0
      else if 2 ^ 1024 - 2 ^ 970 \<le> x then PInf
      else if x \<le> - (2 ^ 1024 - 2 ^ 970) then NInf
      else if 0 < x then Fin (nearest_double x)
      else Fin (- nearest_double (- x)))"

fun js_neg :: "jsnum \<Rightarrow> jsnum" where
  "js_neg (Fin a) = Fin (- a)"
| "js_neg PInf = NInf"
| "js_neg NInf = PInf"
| "js_neg NaN = NaN"

fun js_add :: "jsnum \<Rightarrow> jsnum \<Rightarrow> jsnum" where
  "js_add NaN y = NaN"
| "js_add (Fin a) NaN = NaN"
| "js_add PInf NaN = NaN"
| "js_add NInf NaN = NaN"
| "js_add (Fin a) (Fin b) = Fin (a + b)"
| "js_add (Fin a) PInf = PInf"
| "js_add (Fin a) NInf = NInf"
| "js_add PInf (Fin b) = PInf"
| "js_add PInf PInf = PInf"
| "js_add PInf NInf = NaN"
| "js_add NInf (Fin b) = NInf"
| "js_add NInf NInf = NInf"
| "js_add NInf PInf = NaN"

definition js_sub :: "jsnum \<Rightarrow> jsnum \<Rightarrow> jsnum" where
  "js_sub x y = js_add x (js_neg y)"

text \<open>
  Multiplication: the product of two finite values is rounded to a double; an
  infinity times zero is NaN, otherwise the signs multiply.
\<close>

fun js_sgn :: "jsnum \<Rightarrow> int" where
  "js_sgn (Fin a) = (if a < 0 then - 1 else if a = 0 then 0 else 1)"
| "js_sgn PInf = 1"
| "js_sgn NInf = - 1"
| "js_sgn NaN = 0"

fun js_mul :: "jsnum \<Rightarrow> jsnum \<Rightarrow> jsnum" where
  "js_mul NaN y = NaN"
| "js_mul (Fin a) NaN = NaN"
| "js_mul PInf NaN = NaN"
| "js_mul NInf NaN = NaN"
| "js_mul (Fin a) (Fin b) = to_double (a * b)"
| "js_mul x y =
     (if js_sgn x * js_sgn y = 0 then NaN
      else if js_sgn x * js_sgn y < 0 then NInf else PInf)"

text \<open>
  \<^verbatim>\<open>Math.round\<close>: the nearest integer, a tie going up, computed exactly; infinities
  and NaN pass through.
\<close>

fun js_round :: "jsnum \<Rightarrow> jsnum" where
  "js_round (Fin a) = Fin (of_int \<lfloor>a + 1 / 2\<rfloor>)"
| "js_round x = x"

text \<open>The comparisons \<^verbatim>\<open>>=\<close> and \<^verbatim>\<open><=\<close>: false as soon as one side is NaN.\<close>

fun js_ge :: "jsnum \<Rightarrow> jsnum \<Rightarrow> bool" where
  "js_ge NaN y = False"
| "js_ge (Fin a) NaN = False"
| "js_ge PInf NaN = False"
| "js_ge NInf NaN = False"
| "js_ge (Fin a) (Fin b) = (b \<le> a)"
| "js_ge PInf y = True"
| "js_ge (Fin a) NInf = True"
| "js_ge NInf NInf = True"
| "js_ge (Fin a) PInf = False"
| "js_ge NInf (Fin b) = False"
| "js_ge NInf PInf = False"

definition js_le :: "jsnum \<Rightarrow> jsnum \<Rightarrow> bool" where
  "js_le x y = js_ge y x"

subsection \<open>Messages and the reveal schedule\<close>

datatype speaker = SENDER | RECEIVER

text \<open>
  A message as \<^verbatim>\<open>FakeTextPreview\<close> receives it. The optional fields are
  \<open>None\<close> when the property is absent (\<^verbatim>\<open>undefined\<close> or \<^verbatim>\<open>null\<close>).
\<close>

record message =
  msg_id :: string
  speaker :: speaker
  msg_text :: string
  delay_s :: "jsnum option"
  read_receipt :: "string option"
  tapback :: "string option"

text \<open>A schedule entry \<^verbatim>\<open>{ id, at }\<close>; the field \<^verbatim>\<open>at\<close> is \<open>at_ms\<close> here.\<close>

record entry =
  entry_id :: string
  at_ms :: jsnum

text \<open>
  \<^verbatim>\<open>const d = Math.round(((m.delay_s ?? 3) * 1000))\<close>: the delay of one message
  in milliseconds.
\<close>

definition delayMs :: "message \<Rightarrow> jsnum" where
  "delayMs m = js_round (js_mul (case delay_s m of None \<Rightarrow> Fin 3 | Some x \<Rightarrow> x) (Fin 1000))"

text \<open>
  \<^verbatim>\<open>let acc = 0; return messages.map((m) => { const d = ...; const at = acc;
  acc += d; return { id: m.id, at }; })\<close>: the running total \<open>acc\<close> is threaded
  through the list.
\<close>

fun schedule_from :: "jsnum \<Rightarrow> message list \<Rightarrow> entry list" where
  "schedule_from acc [] = []"
| "schedule_from acc (m # ms) =
     \<lparr>entry_id = msg_id m, at_ms = acc\<rparr> # schedule_from (js_add acc (delayMs m)) ms"

definition schedule :: "message list \<Rightarrow> entry list" where
  "schedule messages = schedule_from (Fin 0) messages"

text \<open>
  \<^verbatim>\<open>let i = 0; while (i < schedule.length && timeMs >= schedule[i].at - 5) i++;
  return i;\<close>
\<close>

function visibleCount_loop :: "entry list \<Rightarrow> jsnum \<Rightarrow> nat \<Rightarrow> nat" where
  "visibleCount_loop sched timeMs i =
     (if i < length sched \<and> js_ge timeMs (js_sub (at_ms (sched ! i)) (Fin 5))
      then visibleCount_loop sched timeMs (i + 1) else i)"
  by pat_completeness auto
termination
  by (relation "measure (\<lambda>(sched, timeMs, i). length sched - i)") auto

declare visibleCount_loop.simps [simp del]

definition visibleCount :: "entry list \<Rightarrow> jsnum \<Rightarrow> nat" where
  "visibleCount sched timeMs = visibleCount_loop sched timeMs 0"

subsection \<open>The presentation surface\<close>

text \<open>
  \<^verbatim>\<open>const timeMs = exportMode && typeof timeOverrideMs === 'number' ? timeOverrideMs : t;\<close>
  The override is \<open>None\<close> when the property is \<^verbatim>\<open>undefined\<close>.
\<close>

definition timeMs :: "bool \<Rightarrow> jsnum option \<Rightarrow> jsnum \<Rightarrow> jsnum" where
  "timeMs exportMode timeOverrideMs t =
     (case timeOverrideMs of
        Some v \<Rightarrow> if exportMode then v else t
      | None \<Rightarrow> t)"

text \<open>
  The rows inside the chat body: the time separator (row 0), then
  \<^verbatim>\<open>messages.slice(0, visibleCount).map((m) => <Bubble ... />)\<close>.
\<close>

datatype row = TimeSeparator string | Bubble message

definition chatRows :: "string \<Rightarrow> message list \<Rightarrow> jsnum \<Rightarrow> row list" where
  "chatRows timeLine messages tm =
     TimeSeparator timeLine # map Bubble (take (visibleCount (schedule messages) tm) messages)"

subsection \<open>The timeline runner\<close>

text \<open>
  The clock state of one mounted \<^verbatim>\<open>FakeTextPreview\<close>: \<open>pending\<close> says that an
  animation frame requested through \<^verbatim>\<open>raf.current\<close> is queued, \<open>cleanup\<close> that the
  last run of the timeline effect returned its cancelling function.
\<close>

record clock =
  playing :: bool
  t :: jsnum
  startRef :: "jsnum option"
  pending :: bool
  cleanup :: bool

text \<open>\<^verbatim>\<open>useState(!exportMode)\<close>, \<^verbatim>\<open>useState(0)\<close>, \<^verbatim>\<open>useRef(null)\<close>.\<close>

definition initial_clock :: "bool \<Rightarrow> clock" where
  "initial_clock exportMode =
     \<lparr>playing = \<not> exportMode, t = Fin 0, startRef = None, pending = False, cleanup = False\<rparr>"

text \<open>
  The timeline effect, run after a render whose dependencies
  \<^verbatim>\<open>[playing, t, exportMode, timeOverrideMs]\<close> changed. The cancelling function of the
  previous run, when there is one, runs first.
\<close>

definition runCleanup :: "clock \<Rightarrow> clock" where
  "runCleanup c = (if cleanup c then c\<lparr>pending := False, cleanup := False\<rparr> else c)"

definition timelineRunner :: "bool \<Rightarrow> jsnum option \<Rightarrow> clock \<Rightarrow> clock" where
  "timelineRunner exportMode timeOverrideMs c0 =
     (let c = runCleanup c0 in
      if exportMode \<and> timeOverrideMs \<noteq> None then c
      else if \<not> playing c then c\<lparr>pending := False\<rparr>
      else c\<lparr>pending := True, cleanup := True\<rparr>)"

text \<open>
  The frame callback \<^verbatim>\<open>step(now)\<close>: it sets \<open>t\<close> from the wall clock and requests
  the next frame.
\<close>

definition step :: "jsnum \<Rightarrow> clock \<Rightarrow> clock" where
  "step now c =
     (let start = (case startRef c of None \<Rightarrow> js_sub now (t c) | Some s \<Rightarrow> s)
      in c\<lparr>startRef := Some start, t := js_sub now start, pending := True\<rparr>)"

text \<open>
  An export host (\<^verbatim>\<open>ExportHost\<close>, and \<^verbatim>\<open>ExportHost2\<close>, which differs only in
  the messages it passes on): its state \<open>override\<close> is what \<^verbatim>\<open>__setExportTime\<close>
  sets, and it renders \<^verbatim>\<open>FakeTextPreview\<close> with \<^verbatim>\<open>exportMode\<close> and
  \<^verbatim>\<open>timeOverrideMs={timeMs}\<close>. The transport bar is not rendered
  in export mode, so the events of a mounted export host are: the override is set, an
  animation frame comes due, and the reset timer of the height animation fires
  (\<^verbatim>\<open>startRef.current = performance.now(); setT(0)\<close>).
\<close>

datatype event = SetExportTime jsnum | AnimationFrame jsnum | HeightReset jsnum

record export_host =
  override :: jsnum
  host_clock :: clock

definition mount_export_host :: export_host where
  "mount_export_host =
     \<lparr>override = Fin 0, host_clock = timelineRunner True (Some (Fin 0)) (initial_clock True)\<rparr>"

fun host_step :: "export_host \<Rightarrow> event \<Rightarrow> export_host" where
  "host_step h (SetExportTime v) =
     h\<lparr>override := v, host_clock := timelineRunner True (Some v) (host_clock h)\<rparr>"
| "host_step h (AnimationFrame now) =
     (if pending (host_clock h)
      then h\<lparr>host_clock := timelineRunner True (Some (override h)) (step now (host_clock h))\<rparr>
      else h)"
| "host_step h (HeightReset now) =
     h\<lparr>host_clock := timelineRunner True (Some (override h))
          ((host_clock h)\<lparr>startRef := Some now, t := Fin 0\<rparr>)\<rparr>"

definition host_timeMs :: "export_host \<Rightarrow> jsnum" where
  "host_timeMs h = timeMs True (Some (override h)) (t (host_clock h))"

subsection \<open>Speech synthesis\<close>

type_synonym bytes = "nat list"

text \<open>
  What the \<^verbatim>\<open>try\<close> block of \<^verbatim>\<open>exportMp4Exact\<close> can throw: the error of
  \<^verbatim>\<open>synthesizeSegment\<close> with the response status, the error of the capture loop, and
  whatever a call outside the component (\<^verbatim>\<open>fetch\<close>, \<^verbatim>\<open>decodeAudioData\<close>, React,
  ffmpeg) rejects or throws with.
\<close>

datatype error = TTSFailed nat | CanvasToBlobFailed | Rejected string

text \<open>
  The two endpoints: \<^verbatim>\<open>/users/me/voices/<voice>/speech\<close> and \<^verbatim>\<open>/audio/speech\<close>.
  A request is the endpoint with the voice and the text posted to it.
\<close>

datatype endpoint = UserVoiceSpeech | AudioSpeech

type_synonym request = "endpoint \<times> string \<times> string"

record response =
  ok :: bool
  status :: nat
  arrayBuffer :: bytes

text \<open>
  \<^verbatim>\<open>synthesizeSegment(text, voice, idx)\<close>. The calls outside the component are
  parameters. \<open>fetch\<close> is the network: it answers a request with a response or
  rejects, and its answer may depend on the requests the attempt has sent before, so
  it is given their list; the same request sent again can be answered differently.
  \<open>decodeAudioData\<close> gives the duration of the audio in seconds or rejects. The
  duration in milliseconds is \<^verbatim>\<open>Math.round(audioBuf.duration * 1000)\<close>, the product
  rounded to a double first; the duration of decoded audio is not negative and far
  below the largest double. The result comes with the list of the requests sent so
  far, the new ones appended.
\<close>

definition synthesizeSegment ::
  "(request list \<Rightarrow> request \<Rightarrow> error + response) \<Rightarrow> (bytes \<Rightarrow> error + rat)
   \<Rightarrow> request list \<Rightarrow> string \<Rightarrow> string
   \<Rightarrow> request list \<times> (error + bytes \<times> int)" where
  "synthesizeSegment fetch decodeAudioData sent0 text_in voice =
     (case fetch sent0 (UserVoiceSpeech, voice, text_in) of
        Inl e \<Rightarrow> (sent0 @ [(UserVoiceSpeech, voice, text_in)], Inl e)
      | Inr res0 \<Rightarrow>
          (case (if \<not> ok res0
                 then (sent0 @ [(UserVoiceSpeech, voice, text_in), (AudioSpeech, voice, text_in)],
                       fetch (sent0 @ [(UserVoiceSpeech, voice, text_in)])
                         (AudioSpeech, voice, text_in))
                 else (sent0 @ [(UserVoiceSpeech, voice, text_in)], Inr res0)) of
             (sent, Inl e) \<Rightarrow> (sent, Inl e)
           | (sent, Inr res) \<Rightarrow>
               (sent,
                if \<not> ok res then Inl (TTSFailed (status res))
                else (case decodeAudioData (arrayBuffer res) of
                        Inl e \<Rightarrow> Inl e
                      | Inr duration \<Rightarrow>
                          Inr (arrayBuffer res, \<lfloor>nearest_double (duration * 1000) + 1 / 2\<rfloor>)))))"

text \<open>
  \<^verbatim>\<open>(m.speaker === 'SENDER' ? senderVoice : receiverVoice) || voices[0] || 'alloy'\<close>:
  the empty string is falsy, and so is \<^verbatim>\<open>voices[0]\<close> of an empty list.
\<close>

definition voiceFor :: "string \<Rightarrow> string \<Rightarrow> string list \<Rightarrow> message \<Rightarrow> string" where
  "voiceFor senderVoice receiverVoice voices m =
     (let v = (if speaker m = SENDER then senderVoice else receiverVoice) in
      if v \<noteq> [] then v
      else (case voices of
              v0 # rest \<Rightarrow> if v0 \<noteq> [] then v0 else ''alloy''
            | [] \<Rightarrow> ''alloy''))"

text \<open>
  Step 1 of the export: one call of \<^verbatim>\<open>synthesizeSegment\<close> per message, in order,
  pushing the bytes and the duration; the first error leaves the loop. \<open>sent\<close> is the
  list of the requests sent so far.
\<close>

fun synthesizeAll ::
  "(request list \<Rightarrow> string \<Rightarrow> string \<Rightarrow> request list \<times> (error + bytes \<times> int))
   \<Rightarrow> (message \<Rightarrow> string) \<Rightarrow> message list \<Rightarrow> request list \<Rightarrow> bytes list \<Rightarrow> int list
   \<Rightarrow> request list \<times> (error + bytes list \<times> int list)" where
  "synthesizeAll synth voiceOf [] sent audioSegBytes audioDurations =
     (sent, Inr (audioSegBytes, audioDurations))"
| "synthesizeAll synth voiceOf (m # ms) sent audioSegBytes audioDurations =
     (case synth sent (msg_text m) (voiceOf m) of
        (sent', Inl e) \<Rightarrow> (sent', Inl e)
      | (sent', Inr (segBytes, durationMs)) \<Rightarrow>
          synthesizeAll synth voiceOf ms sent'
            (audioSegBytes @ [segBytes]) (audioDurations @ [durationMs]))"

subsection \<open>The export schedule\<close>

text \<open>
  \<^verbatim>\<open>messages.map((m, i) => ({ ...m, delay_s: Math.max(0.01,
  Math.round((audioDurations[i] || 0) / 10) / 100) }))\<close>. The durations are whole
  milliseconds (\<^verbatim>\<open>Math.round\<close> in \<^verbatim>\<open>synthesizeSegment\<close>); \<^verbatim>\<open>audioDurations[i]\<close>
  beyond the end is \<^verbatim>\<open>undefined\<close>, which \<^verbatim>\<open>|| 0\<close> turns into 0.
\<close>

definition audioDurationAt :: "int list \<Rightarrow> nat \<Rightarrow> int" where
  "audioDurationAt audioDurations i =
     (if i < length audioDurations then audioDurations ! i else 0)"

definition exportDelay :: "int \<Rightarrow> rat" where
  "exportDelay durationMs = max (1 / 100) (of_int \<lfloor>of_int durationMs / 10 + (1 / 2 :: rat)\<rfloor> / 100)"

definition messagesForExport :: "message list \<Rightarrow> int list \<Rightarrow> message list" where
  "messagesForExport messages audioDurations =
     map (\<lambda>(m, i). m\<lparr>delay_s := Some (Fin (exportDelay (audioDurationAt audioDurations i)))\<rparr>)
       (zip messages [0 ..< length messages])"

subsection \<open>The frame capture loop\<close>

text \<open>\<^verbatim>\<open>const fps = 30; const dt = Math.round(1000 / fps);\<close>\<close>

definition fps :: rat where
  "fps = 30"

definition dt :: int where
  "dt = \<lfloor>1000 / fps + 1 / 2\<rfloor>"

text \<open>
  \<^verbatim>\<open>const totalFrames = Math.ceil(naturalTotalMs / dt);\<close> where \<^verbatim>\<open>naturalTotalMs\<close>,
  the sum of the audio durations, is a whole number of milliseconds.
\<close>

definition totalFrames :: "int \<Rightarrow> int" where
  "totalFrames naturalTotalMs = \<lceil>(of_int naturalTotalMs :: rat) / of_int dt\<rceil>"

text \<open>\<^verbatim>\<open>const exportTimelineMs = Math.min(naturalTotalMs, Math.round(i * dt));\<close>\<close>

definition exportTimelineMs :: "int \<Rightarrow> int \<Rightarrow> int" where
  "exportTimelineMs naturalTotalMs i = min naturalTotalMs \<lfloor>(of_int (i * dt) :: rat) + 1 / 2\<rfloor>"

text \<open>
  \<^verbatim>\<open>for (let i = 0; i <= totalFrames; i++) { ... }\<close>: each pass sets the export clock,
  captures the offscreen host and pushes the frame; a capture without a blob throws.
  The parameter \<open>capture\<close> is what \<^verbatim>\<open>html2canvas\<close> and \<^verbatim>\<open>toBlob\<close> give once the
  export clock has been set to its argument. The result comes with the list of the
  clock values set, in order.
\<close>

function captureLoop ::
  "(int \<Rightarrow> 'img option) \<Rightarrow> int \<Rightarrow> int \<Rightarrow> 'img list \<Rightarrow> int list \<times> (error + 'img list)" where
  "captureLoop capture naturalTotalMs i frames =
     (if i \<le> totalFrames naturalTotalMs then
        (case capture (exportTimelineMs naturalTotalMs i) of
           None \<Rightarrow> ([exportTimelineMs naturalTotalMs i], Inl CanvasToBlobFailed)
         | Some blob \<Rightarrow>
             (case captureLoop capture naturalTotalMs (i + 1) (frames @ [blob]) of
                (clocks, r) \<Rightarrow> (exportTimelineMs naturalTotalMs i # clocks, r)))
      else ([], Inr frames))"
  by pat_completeness auto
termination
  by (relation "measure (\<lambda>(capture, naturalTotalMs, i, frames).
        nat (totalFrames naturalTotalMs + 1 - i))") auto

declare captureLoop.simps [simp del]

definition captureFrames :: "(int \<Rightarrow> 'img option) \<Rightarrow> int \<Rightarrow> int list \<times> (error + 'img list)" where
  "captureFrames capture naturalTotalMs = captureLoop capture naturalTotalMs 0 []"

subsection \<open>The export routine\<close>

datatype tab = SCRIPT | VOICES | ADVANCED | BACKGROUND | EXPORT

text \<open>
  A React root made by \<^verbatim>\<open>createRoot\<close>. \<^verbatim>\<open>root.unmount()\<close> unmounts it, and
  \<^verbatim>\<open>root.render(...)\<close> on a root that has been unmounted throws
  \<^verbatim>\<open>Cannot update an unmounted root.\<close>
\<close>

datatype root = Live | Unmounted

definition root_unmount :: "root \<Rightarrow> root" where
  "root_unmount r = Unmounted"

definition root_render :: "root \<Rightarrow> error + root" where
  "root_render r =
     (case r of
        Live \<Rightarrow> Inr Live
      | Unmounted \<Rightarrow> Inl (Rejected ''Cannot update an unmounted root.''))"

text \<open>
  The state of \<^verbatim>\<open>FakeTextBuilder\<close> that the export touches, with the files handed
  to \<^verbatim>\<open>download\<close>, the errors written by \<^verbatim>\<open>console.error\<close>, and what the export
  leaves in the page: \<open>offscreen\<close> lists the offscreen hosts appended to
  \<^verbatim>\<open>document.body\<close> and not removed, each by the state of its root, and
  \<open>setExportTime\<close> says that the global \<^verbatim>\<open>window.__setExportTime\<close> has been set.
\<close>

record builder =
  tab :: tab
  exporting :: bool
  exportNote :: string
  downloads :: "(string \<times> bytes) list"
  console :: "error list"
  offscreen :: "root list"
  setExportTime :: bool

text \<open>
  What one export attempt did outside the builder: the synthesis requests sent, the
  values the export clock was set to by the capture loop, and whether ffmpeg was
  started.
\<close>

record trace =
  requests :: "request list"
  clocks :: "int list"
  encoded :: bool

text \<open>
  The view captured at one export clock value: the second export host renders
  \<^verbatim>\<open>FakeTextPreview\<close> with \<^verbatim>\<open>exportMode\<close>, the export messages and
  \<^verbatim>\<open>timeOverrideMs\<close>; its own \<open>t\<close> is still the initial 0.
\<close>

definition exportView :: "string \<Rightarrow> message list \<Rightarrow> int \<Rightarrow> row list" where
  "exportView timeLine messages tm =
     chatRows timeLine messages (timeMs True (Some (Fin (of_int tm))) (Fin 0))"

text \<open>
  The body of the \<^verbatim>\<open>try\<close> block, in the order of the code: the offscreen host is
  appended and its root renders the first export host; speech for every message; the
  export schedule; \<^verbatim>\<open>offRoot.unmount()\<close> and then \<^verbatim>\<open>offRoot.render(...)\<close> of the
  second export host on the same root; the frames; ffmpeg; the download, after which
  the root is unmounted and the host removed. \<open>toBlob\<close> rasterises a view (\<open>None\<close>:
  no blob), \<open>encode\<close> stands for the ffmpeg calls from \<^verbatim>\<open>load\<close> to
  \<^verbatim>\<open>readFile('out.mp4')\<close>. The result comes with the trace and with the root of the
  offscreen host when the host is still in the page.
\<close>

definition exportAttempt ::
  "(request list \<Rightarrow> request \<Rightarrow> error + response) \<Rightarrow> (bytes \<Rightarrow> error + rat)
   \<Rightarrow> (row list \<Rightarrow> bytes option) \<Rightarrow> (bytes list \<Rightarrow> bytes list \<Rightarrow> error + bytes)
   \<Rightarrow> string \<Rightarrow> string \<Rightarrow> string list \<Rightarrow> string \<Rightarrow> message list
   \<Rightarrow> trace \<times> root option \<times> (error + bytes)" where
  "exportAttempt fetch decodeAudioData toBlob encode senderVoice receiverVoice voices timeLine messages =
     (case root_render Live of
        Inl e \<Rightarrow> (\<lparr>requests = [], clocks = [], encoded = False\<rparr>, Some Live, Inl e)
      | Inr offRoot \<Rightarrow>
     (case synthesizeAll (synthesizeSegment fetch decodeAudioData)
             (voiceFor senderVoice receiverVoice voices) messages [] [] [] of
        (sent, Inl e) \<Rightarrow>
          (\<lparr>requests = sent, clocks = [], encoded = False\<rparr>, Some offRoot, Inl e)
      | (sent, Inr (audioSegBytes, audioDurations)) \<Rightarrow>
          (case root_render (root_unmount offRoot) of
             Inl e \<Rightarrow>
               (\<lparr>requests = sent, clocks = [], encoded = False\<rparr>,
                Some (root_unmount offRoot), Inl e)
           | Inr offRoot2 \<Rightarrow>
               (case captureFrames
                       (\<lambda>tm. toBlob
                          (exportView timeLine (messagesForExport messages audioDurations) tm))
                       (sum_list audioDurations) of
                  (set_times, Inl e) \<Rightarrow>
                    (\<lparr>requests = sent, clocks = set_times, encoded = False\<rparr>,
                     Some offRoot2, Inl e)
                | (set_times, Inr frames) \<Rightarrow>
                    (case encode frames audioSegBytes of
                       Inl e \<Rightarrow>
                         (\<lparr>requests = sent, clocks = set_times, encoded = True\<rparr>,
                          Some offRoot2, Inl e)
                     | Inr data \<Rightarrow>
                         (\<lparr>requests = sent, clocks = set_times, encoded = True\<rparr>,
                          None, Inr data))))))"

text \<open>
  \<^verbatim>\<open>exportMp4Exact\<close>: nothing happens while an export is running; otherwise the
  attempt runs, and either the file is downloaded or the \<^verbatim>\<open>catch\<close> block reports the
  failure. The \<^verbatim>\<open>catch\<close> block neither unmounts the root nor removes the host.
\<close>

definition exportMp4Exact ::
  "(request list \<Rightarrow> request \<Rightarrow> error + response) \<Rightarrow> (bytes \<Rightarrow> error + rat)
   \<Rightarrow> (row list \<Rightarrow> bytes option) \<Rightarrow> (bytes list \<Rightarrow> bytes list \<Rightarrow> error + bytes)
   \<Rightarrow> string \<Rightarrow> string \<Rightarrow> string list \<Rightarrow> string \<Rightarrow> message list
   \<Rightarrow> builder \<Rightarrow> trace \<times> builder" where
  "exportMp4Exact fetch decodeAudioData toBlob encode senderVoice receiverVoice voices timeLine messages b =
     (if exporting b then (\<lparr>requests = [], clocks = [], encoded = False\<rparr>, b)
      else
        (case exportAttempt fetch decodeAudioData toBlob encode
                senderVoice receiverVoice voices timeLine messages of
           (tr, host, Inl e) \<Rightarrow>
             (tr, b\<lparr>tab := EXPORT, exportNote := ''Export failed. See console.'',
                    console := console b @ [e], exporting := False,
                    offscreen := offscreen b @ (case host of Some r \<Rightarrow> [r] | None \<Rightarrow> []),
                    setExportTime := True\<rparr>)
         | (tr, host, Inr data) \<Rightarrow>
             (tr, b\<lparr>tab := EXPORT, downloads := downloads b @ [(''fake-text.mp4'', data)],
                    exportNote := [], exporting := False,
                    offscreen := offscreen b @ (case host of Some r \<Rightarrow> [r] | None \<Rightarrow> []),
                    setExportTime := True\<rparr>)))"

subsection \<open>Example messages\<close>

text \<open>A message with a given id and delay, for the concrete cases below.\<close>

definition example_message :: "string \<Rightarrow> jsnum option \<Rightarrow> message" where
  "example_message i d =
     \<lparr>msg_id = i, speaker = SENDER, msg_text = ''Hey, you free?'', delay_s = d,
      read_receipt = None, tapback = None\<rparr>"

text \<open>
  A speech service that answers the first request of an attempt with audio and every
  later request with status 429, an audio decoder that reports a tenth of a second, a
  rasteriser that always gives a blob, an encoder that always gives a file, and a
  builder that is not exporting, in a page without offscreen hosts.
\<close>

definition example_fetch :: "request list \<Rightarrow> request \<Rightarrow> error + response" where
  "example_fetch sent req =
     (if sent = [] then Inr \<lparr>ok = True, status = 200, arrayBuffer = [73, 68, 51]\<rparr>
      else Inr \<lparr>ok = False, status = 429, arrayBuffer = []\<rparr>)"

definition example_decode :: "bytes \<Rightarrow> error + rat" where
  "example_decode b = Inr (1 / 10)"

definition example_toBlob :: "row list \<Rightarrow> bytes option" where
  "example_toBlob rows = Some [255, 216]"

definition example_encode :: "bytes list \<Rightarrow> bytes list \<Rightarrow> error + bytes" where
  "example_encode frames segs = Inr [0, 0, 0]"

definition example_builder :: builder where
  "example_builder =
     \<lparr>tab = SCRIPT, exporting = False, exportNote = [], downloads = [], console = [],
      offscreen = [], setExportTime = False\<rparr>"

section \<open>Rounding to a double\<close>

text \<open>
  The exponent is the one the definition describes, integers below \<open>2 ^ 53\<close> are
  doubles, and rounding keeps the sign and does not take a value of at least 1
  below 1.
\<close>

lemma round_half_even_of_int: "round_half_even (of_int n) = n"
  by (simp add: round_half_even_def)

lemma round_half_even_ge_floor: "\<lfloor>y\<rfloor> \<le> round_half_even y"
  by (simp add: round_half_even_def)

lemma round_half_even_ge: "of_int n \<le> y \<Longrightarrow> n \<le> round_half_even y"
proof -
  assume "of_int n \<le> y"
  then have "n \<le> \<lfloor>y\<rfloor>" by (simp add: le_floor_iff)
  with round_half_even_ge_floor [of y] show ?thesis by linarith
qed

lemma powi_nonneg_nat: "0 \<le> k \<Longrightarrow> (2::rat) powi k = 2 ^ nat k"
  by (simp add: power_int_def)

lemma powi_neg_nat: "0 \<le> k \<Longrightarrow> (2::rat) powi (- k) = 1 / 2 ^ nat k"
  by (simp add: power_int_minus_divide powi_nonneg_nat)

lemma binary_exponent_bounds:
  assumes "0 < x"
  shows "2 powi binary_exponent x \<le> x" and "x < 2 powi (binary_exponent x + 1)"
proof -
  have "2 powi binary_exponent x \<le> x \<and> x < 2 powi (binary_exponent x + 1)"
  proof (cases "1 \<le> x")
    case True
    define n where "n = \<lfloor>x\<rfloor>"
    from True have n1: "1 \<le> n" by (simp add: n_def le_floor_iff)
    then have pos: "0 < n" by simp
    from bitlen_bounds [OF pos]
    have lo: "2 ^ nat (bitlen n - 1) \<le> n" and hi: "n < 2 ^ nat (bitlen n)" by simp_all
    have b1: "1 \<le> bitlen n"
      using pos bitlen_eq_zero_iff [of n] bitlen_nonneg [of n] by linarith
    have e: "binary_exponent x = bitlen n - 1"
      using True by (simp add: binary_exponent_def n_def)
    have "(2::rat) powi (bitlen n - 1) = of_int (2 ^ nat (bitlen n - 1))"
      using b1 by (simp add: power_int_def)
    also have "\<dots> \<le> of_int n" using lo by (simp only: of_int_le_iff)
    also have "\<dots> \<le> x"
      unfolding n_def using floor_correct [of x] by simp
    finally have A: "2 powi (bitlen n - 1) \<le> x" .
    from hi have "n + 1 \<le> 2 ^ nat (bitlen n)" by simp
    then have up: "(of_int (n + 1) :: rat) \<le> of_int (2 ^ nat (bitlen n))"
      by (simp only: of_int_le_iff)
    have "x < of_int (n + 1)"
      unfolding n_def using floor_correct [of x] by simp
    also note up
    also have "(of_int (2 ^ nat (bitlen n)) :: rat) = 2 powi (bitlen n - 1 + 1)"
      using b1 by (simp add: powi_nonneg_nat)
    finally have B: "x < 2 powi (bitlen n - 1 + 1)" .
    from A B e show ?thesis by simp
  next
    case False
    with assms have x1: "x < 1" by simp
    define m where "m = \<lceil>1 / x\<rceil> - 1"
    from x1 assms have y1: "1 < 1 / x" by simp
    then have "1 < \<lceil>1 / x\<rceil>" by (simp add: less_ceiling_iff)
    then have pos: "0 < m" by (simp add: m_def)
    from bitlen_bounds [OF pos]
    have lo: "2 ^ nat (bitlen m - 1) \<le> m" and hi: "m < 2 ^ nat (bitlen m)" by simp_all
    have b1: "1 \<le> bitlen m"
      using pos bitlen_eq_zero_iff [of m] bitlen_nonneg [of m] by linarith
    have e: "binary_exponent x = - bitlen m"
      using False by (simp add: binary_exponent_def m_def)
    have p1: "(2::rat) powi (- bitlen m) = 1 / of_int (2 ^ nat (bitlen m))"
      using b1 by (simp add: powi_neg_nat)
    have "(2::rat) powi (- (bitlen m - 1)) = 1 / 2 ^ nat (bitlen m - 1)"
      using b1 by (intro powi_neg_nat) simp
    then have p2: "(2::rat) powi (- bitlen m + 1) = 1 / of_int (2 ^ nat (bitlen m - 1))"
      by simp
    from hi have "m + 1 \<le> 2 ^ nat (bitlen m)" by simp
    then have up: "(of_int (m + 1) :: rat) \<le> of_int (2 ^ nat (bitlen m))"
      by (simp only: of_int_le_iff)
    have "1 / x \<le> of_int (m + 1)"
      unfolding m_def using ceiling_correct [of "1 / x"] by simp
    also note up
    finally have "1 / x \<le> of_int (2 ^ nat (bitlen m))" .
    moreover have "(0::rat) < of_int (2 ^ nat (bitlen m))" by simp
    ultimately have A: "1 / of_int (2 ^ nat (bitlen m)) \<le> x"
      using assms by (simp add: field_simps)
    have "(of_int (2 ^ nat (bitlen m - 1)) :: rat) \<le> of_int m"
      using lo by (simp only: of_int_le_iff)
    also have "of_int m < 1 / x"
      unfolding m_def using ceiling_correct [of "1 / x"] by simp
    finally have "(of_int (2 ^ nat (bitlen m - 1)) :: rat) < 1 / x" .
    moreover have "(0::rat) < of_int (2 ^ nat (bitlen m - 1))" by simp
    ultimately have B: "x < 1 / of_int (2 ^ nat (bitlen m - 1))"
      using assms by (simp add: field_simps)
    from A B e p1 p2 show ?thesis by simp
  qed
  then show "2 powi binary_exponent x \<le> x" and "x < 2 powi (binary_exponent x + 1)"
    by simp_all
qed


lemma quantum_pos: "0 < quantum a"
  by (simp add: quantum_def)

lemma nearest_double_nonneg: "0 \<le> a \<Longrightarrow> 0 \<le> nearest_double a"
proof -
  assume "0 \<le> a"
  then have "(of_int 0 :: rat) \<le> a / quantum a"
    using quantum_pos [of a] by simp
  then have "0 \<le> round_half_even (a / quantum a)"
    by (rule round_half_even_ge)
  then show ?thesis
    using quantum_pos [of a] by (simp add: nearest_double_def)
qed

lemma binary_exponent_nonneg: "1 \<le> a \<Longrightarrow> 0 \<le> binary_exponent a"
proof (rule ccontr)
  assume a: "1 \<le> a" and "\<not> 0 \<le> binary_exponent a"
  then have "binary_exponent a + 1 \<le> 0" by simp
  then have "(2::rat) powi (binary_exponent a + 1) \<le> 2 powi 0"
    by (intro power_int_increasing) simp_all
  moreover from a have "a < 2 powi (binary_exponent a + 1)"
    by (intro binary_exponent_bounds) simp
  ultimately show False using a by simp
qed

lemma nearest_double_ge_power:
  assumes "1 \<le> a"
  shows "2 powi binary_exponent a \<le> nearest_double a"
proof -
  let ?e = "binary_exponent a"
  from assms have pos: "0 < a" by simp
  have e0: "0 \<le> ?e" by (rule binary_exponent_nonneg [OF assms])
  then have q: "quantum a = 2 powi (?e - 52)"
    by (simp add: quantum_def max_def)
  have split: "(2::rat) powi ?e = 2 powi 52 * 2 powi (?e - 52)"
    using power_int_add [of "2::rat" 52 "?e - 52"] by simp
  have "(2::rat) powi 52 = 2 powi ?e / 2 powi (?e - 52)"
    by (simp add: split)
  also have "\<dots> \<le> a / 2 powi (?e - 52)"
    using binary_exponent_bounds(1) [OF pos] by (simp add: divide_right_mono)
  finally have "(of_int (2 ^ 52) :: rat) \<le> a / quantum a"
    by (simp add: q)
  then have "2 ^ 52 \<le> round_half_even (a / quantum a)"
    by (rule round_half_even_ge)
  then have "(of_int (2 ^ 52) :: rat) \<le> of_int (round_half_even (a / quantum a))"
    by (simp only: of_int_le_iff)
  then have "of_int (2 ^ 52) * quantum a \<le> nearest_double a"
    unfolding nearest_double_def using quantum_pos [of a] by (simp only: mult_le_cancel_right_pos)
  then show ?thesis
    by (simp add: q split)
qed

lemma nearest_double_ge_one: "1 \<le> a \<Longrightarrow> 1 \<le> nearest_double a"
proof -
  assume a: "1 \<le> a"
  have "(2::rat) powi 0 \<le> 2 powi binary_exponent a"
    using binary_exponent_nonneg [OF a] by (intro power_int_increasing) simp_all
  with nearest_double_ge_power [OF a] show ?thesis by simp
qed

lemma nearest_double_of_int:
  assumes "0 < k" and "k < 2 ^ 53"
  shows "nearest_double (of_int k) = of_int k"
proof -
  let ?e = "binary_exponent (of_int k)"
  from assms have one: "(1::rat) \<le> of_int k" by simp
  then have pos: "(0::rat) < of_int k" by simp
  have e0: "0 \<le> ?e" by (rule binary_exponent_nonneg [OF one])
  have "(2::rat) powi ?e \<le> of_int k"
    by (rule binary_exponent_bounds(1) [OF pos])
  also have "(of_int k :: rat) < of_int (2 ^ 53)"
    using assms(2) by (simp only: of_int_less_iff)
  finally have "(2::rat) powi ?e < 2 powi 53" by simp
  then have e52: "?e \<le> 52"
    using power_int_le_imp_less_exp [of "2::rat" ?e 53] by simp
  from e0 have q: "quantum (of_int k) = 2 powi (?e - 52)"
    by (simp add: quantum_def max_def)
  have "(2::rat) powi (- (52 - ?e)) = 1 / 2 ^ nat (52 - ?e)"
    using e52 by (intro powi_neg_nat) simp
  then have q': "quantum (of_int k) = 1 / of_int (2 ^ nat (52 - ?e))"
    by (simp add: q)
  have "of_int k / quantum (of_int k) = (of_int (k * 2 ^ nat (52 - ?e)) :: rat)"
    by (simp add: q')
  then have "round_half_even (of_int k / quantum (of_int k)) = k * 2 ^ nat (52 - ?e)"
    by (simp only: round_half_even_of_int)
  then show ?thesis
    by (simp add: nearest_double_def) (simp add: q')
qed

lemma to_double_of_int:
  assumes "\<bar>k\<bar> < 2 ^ 53"
  shows "to_double (of_int k) = Fin (of_int k)"
proof -
  have big: "(2 ^ 53 :: rat) \<le> 2 ^ 1024 - 2 ^ 970" by simp
  from assms have "(of_int \<bar>k\<bar> :: rat) < of_int (2 ^ 53)"
    by (simp only: of_int_less_iff)
  then have bound: "\<bar>of_int k :: rat\<bar> < 2 ^ 53" by simp
  consider "k = 0" | "0 < k" | "k < 0" by linarith
  then show ?thesis
  proof cases
    case 1
    then show ?thesis by (simp add: to_double_def)
  next
    case 2
    with assms have "k < 2 ^ 53" by simp
    from nearest_double_of_int [OF 2 this] 2 bound big show ?thesis
      by (simp add: to_double_def)
  next
    case 3
    with assms have "0 < - k" and "- k < 2 ^ 53" by simp_all
    from nearest_double_of_int [OF this] 3 bound big show ?thesis
      by (simp add: to_double_def)
  qed
qed

lemma to_double_numeral:
  "numeral n < (2 ^ 53 :: int) \<Longrightarrow> to_double (numeral n) = Fin (numeral n)"
  using to_double_of_int [of "numeral n"] by simp

lemma to_double_neg_numeral:
  "numeral n < (2 ^ 53 :: int) \<Longrightarrow> to_double (- numeral n) = Fin (- numeral n)"
  using to_double_of_int [of "- numeral n"] by simp

lemma nearest_double_numeral:
  "numeral n < (2 ^ 53 :: int) \<Longrightarrow> nearest_double (numeral n) = numeral n"
  using nearest_double_of_int [of "numeral n"] by simp

lemma to_double_nonneg: "0 \<le> x \<Longrightarrow> js_ge (to_double x) (Fin 0)"
  by (simp add: to_double_def nearest_double_nonneg)

lemma to_double_negative:
  assumes "x \<le> - 1"
  shows "to_double x = NInf \<or> (\<exists>y. to_double x = Fin (- y) \<and> 1 \<le> y)"
proof (cases "x \<le> - (2 ^ 1024 - 2 ^ 970)")
  case True
  with assms show ?thesis by (simp add: to_double_def)
next
  case False
  from assms have "1 \<le> nearest_double (- x)"
    by (intro nearest_double_ge_one) simp
  with assms False show ?thesis by (simp add: to_double_def)
qed

section \<open>Facts about the loops and the order of numbers\<close>

lemma visibleCount_loop_takeWhile:
  "i \<le> length sched \<Longrightarrow>
   visibleCount_loop sched tm i =
     i + length (takeWhile (\<lambda>e. js_ge tm (js_sub (at_ms e) (Fin 5))) (drop i sched))"
proof (induction sched tm i rule: visibleCount_loop.induct)
  case (1 sched tm i)
  show ?case
  proof (cases "i < length sched")
    case inside: True
    then have d: "drop i sched = sched ! i # drop (Suc i) sched"
      by (simp add: Cons_nth_drop_Suc)
    show ?thesis
    proof (cases "js_ge tm (js_sub (at_ms (sched ! i)) (Fin 5))")
      case True
      with inside 1 have "visibleCount_loop sched tm (i + 1)
          = i + 1 + length (takeWhile (\<lambda>e. js_ge tm (js_sub (at_ms e) (Fin 5))) (drop (i + 1) sched))"
        by simp
      with True inside d show ?thesis
        by (subst visibleCount_loop.simps) simp
    next
      case False
      with inside d show ?thesis
        by (subst visibleCount_loop.simps) simp
    qed
  next
    case False
    then show ?thesis
      by (subst visibleCount_loop.simps) simp
  qed
qed

lemma visibleCount_takeWhile:
  "visibleCount sched tm = length (takeWhile (\<lambda>e. js_ge tm (js_sub (at_ms e) (Fin 5))) sched)"
  by (simp add: visibleCount_def visibleCount_loop_takeWhile)

lemma length_schedule_from: "length (schedule_from acc ms) = length ms"
  by (induction ms arbitrary: acc) auto

lemma ids_schedule_from: "map entry_id (schedule_from acc ms) = map msg_id ms"
  by (induction ms arbitrary: acc) auto

lemma at_schedule_from:
  "i < length ms \<Longrightarrow>
   at_ms (schedule_from acc ms ! i) = foldl js_add acc (map delayMs (take i ms))"
proof (induction ms arbitrary: acc i)
  case Nil
  then show ?case by simp
next
  case (Cons m ms)
  then show ?case by (cases i) auto
qed


lemma js_ge_sub_iff_le_add: "js_ge tm (js_sub a (Fin 5)) = js_le a (js_add tm (Fin 5))"
  by (cases tm; cases a) (auto simp: js_sub_def js_le_def)

lemma js_ge_mono_left: "js_le t1 t2 \<Longrightarrow> js_ge t1 x \<Longrightarrow> js_ge t2 x"
  by (cases t1; cases t2; cases x) (auto simp: js_le_def)

lemma js_le_trans: "js_le a b \<Longrightarrow> js_le b c \<Longrightarrow> js_le a c"
  by (cases a; cases b; cases c) (auto simp: js_le_def)

lemma js_add_nonneg:
  "js_ge a (Fin 0) \<Longrightarrow> js_ge d (Fin 0) \<Longrightarrow> js_le a (js_add a d) \<and> js_ge (js_add a d) (Fin 0)"
  by (cases a; cases d) (auto simp: js_le_def)

lemma schedule_from_bounds:
  "js_ge acc (Fin 0) \<Longrightarrow> \<forall>m\<in>set ms. js_ge (delayMs m) (Fin 0) \<Longrightarrow>
   \<forall>e\<in>set (schedule_from acc ms). js_le acc (at_ms e)"
proof (induction ms arbitrary: acc)
  case Nil
  then show ?case by simp
next
  case (Cons m ms)
  from Cons.prems have d: "js_ge (delayMs m) (Fin 0)" by simp
  from js_add_nonneg [OF Cons.prems(1) d]
  have up: "js_le acc (js_add acc (delayMs m))" and nn: "js_ge (js_add acc (delayMs m)) (Fin 0)"
    by simp_all
  from Cons.prems have "\<forall>m\<in>set ms. js_ge (delayMs m) (Fin 0)" by simp
  from Cons.IH [OF nn this]
  have "\<forall>e\<in>set (schedule_from (js_add acc (delayMs m)) ms). js_le acc (at_ms e)"
    using up js_le_trans by blast
  moreover have "js_le acc acc"
    using Cons.prems(1) by (cases acc) (auto simp: js_le_def)
  ultimately show ?case by simp
qed

lemma schedule_from_sorted:
  "js_ge acc (Fin 0) \<Longrightarrow> \<forall>m\<in>set ms. js_ge (delayMs m) (Fin 0) \<Longrightarrow>
   sorted_wrt js_le (map at_ms (schedule_from acc ms))"
proof (induction ms arbitrary: acc)
  case Nil
  then show ?case by simp
next
  case (Cons m ms)
  from Cons.prems have d: "js_ge (delayMs m) (Fin 0)" by simp
  from js_add_nonneg [OF Cons.prems(1) d]
  have up: "js_le acc (js_add acc (delayMs m))" and nn: "js_ge (js_add acc (delayMs m)) (Fin 0)"
    by simp_all
  from Cons.prems have rest: "\<forall>m\<in>set ms. js_ge (delayMs m) (Fin 0)" by simp
  have "\<forall>e\<in>set (schedule_from (js_add acc (delayMs m)) ms). js_le acc (at_ms e)"
    using schedule_from_bounds [OF nn rest] up js_le_trans by blast
  with Cons.IH [OF nn rest] show ?case by simp
qed

lemma takeWhile_eq_filter_sorted:
  "sorted_wrt js_le (map at_ms sched) \<Longrightarrow>
   takeWhile (\<lambda>e. js_le (at_ms e) hi) sched = filter (\<lambda>e. js_le (at_ms e) hi) sched"
proof (induction sched)
  case Nil
  then show ?case by simp
next
  case (Cons e es)
  show ?case
  proof (cases "js_le (at_ms e) hi")
    case True
    with Cons show ?thesis by simp
  next
    case False
    have "\<forall>x\<in>set es. \<not> js_le (at_ms x) hi"
    proof
      fix x assume "x \<in> set es"
      with Cons.prems have "js_le (at_ms e) (at_ms x)" by auto
      with False show "\<not> js_le (at_ms x) hi"
        using js_le_trans by blast
    qed
    with False show ?thesis by (simp add: filter_empty_conv [THEN iffD2])
  qed
qed

lemma floor_rat_numeral: "\<lfloor>(numeral a :: rat) / numeral b\<rfloor> = numeral a div numeral b"
  using floor_divide_of_int_eq [of "numeral a" "numeral b", where ?'a = rat] by simp

lemma floor_rat_neg_numeral: "\<lfloor>- ((numeral a :: rat) / numeral b)\<rfloor> = - numeral a div numeral b"
  using floor_divide_of_int_eq [of "- numeral a" "numeral b", where ?'a = rat] by simp

lemma ceiling_rat_numeral: "\<lceil>(numeral a :: rat) / numeral b\<rceil> = - (- numeral a div numeral b)"
  using floor_rat_neg_numeral [of a b] by (simp add: ceiling_def)

section \<open>Facts about the delay of a message\<close>

lemma delayMs_absent: "delay_s m = None \<Longrightarrow> delayMs m = Fin 3000"
  by (simp add: delayMs_def to_double_numeral floor_rat_numeral)

lemma delayMs_present: "delay_s m = Some d \<Longrightarrow> delayMs m = js_round (js_mul d (Fin 1000))"
  by (simp add: delayMs_def)

lemma js_round_nonneg: "js_ge y (Fin 0) \<Longrightarrow> js_ge (js_round y) (Fin 0)"
  by (cases y) simp_all

lemma js_round_whole: "js_round y = Fin r \<Longrightarrow> \<exists>k::int. r = of_int k"
  by (cases y) auto

lemma delayMs_whole: "delayMs m = Fin r \<Longrightarrow> \<exists>k::int. r = of_int k"
  unfolding delayMs_def by (rule js_round_whole)

lemma delayMs_seconds:
  assumes "delay_s m = Some (Fin (of_int k))" and "\<bar>k * 1000\<bar> < 2 ^ 53"
  shows "delayMs m = Fin (of_int (k * 1000))"
proof -
  have "to_double (of_int (k * 1000)) = Fin (of_int (k * 1000))"
    by (rule to_double_of_int [OF assms(2)])
  then have "js_mul (Fin (of_int k)) (Fin 1000) = Fin (of_int (k * 1000))"
    by simp
  moreover have "\<lfloor>(of_int (k * 1000) :: rat) + 1 / 2\<rfloor> = k * 1000"
    by (rule floor_unique) simp_all
  ultimately show ?thesis
    using assms(1) by (simp add: delayMs_def)
qed

lemma delayMs_overflow:
  assumes "delay_s m = Some (Fin r)" and "2 ^ 1024 - 2 ^ 970 \<le> r * 1000"
  shows "delayMs m = PInf"
proof -
  from assms(2) have "r * 1000 \<noteq> 0" by auto
  with assms show ?thesis
    by (simp add: delayMs_def to_double_def)
qed

lemma delayMs_negative:
  assumes "delay_s m = Some (Fin r)" and "r \<le> - (1 / 1000)"
  shows "\<not> js_ge (delayMs m) (Fin 0)"
proof -
  from assms(2) have "r * 1000 \<le> - 1" by simp
  from to_double_negative [OF this]
  consider "to_double (r * 1000) = NInf"
    | y where "to_double (r * 1000) = Fin (- y)" and "1 \<le> y"
    by blast
  then show ?thesis
  proof cases
    case 1
    with assms(1) show ?thesis by (simp add: delayMs_def)
  next
    case 2
    from 2(2) have "- y + 1 / 2 < 0" by simp
    then have "\<lfloor>- y + 1 / 2\<rfloor> < 0" by (simp add: floor_less_iff)
    with 2(1) assms(1) show ?thesis by (simp add: delayMs_def)
  qed
qed

lemma delayMs_nonneg:
  "(case delay_s m of None \<Rightarrow> True | Some d \<Rightarrow> js_ge d (Fin 0)) \<Longrightarrow> js_ge (delayMs m) (Fin 0)"
proof (cases "delay_s m")
  case None
  then show ?thesis by (simp add: delayMs_absent)
next
  case (Some d)
  assume "case delay_s m of None \<Rightarrow> True | Some d \<Rightarrow> js_ge d (Fin 0)"
  with Some have d: "js_ge d (Fin 0)" by simp
  show ?thesis
  proof (cases d)
    case (Fin r)
    with d have "0 \<le> r * 1000" by simp
    then have "js_ge (js_round (to_double (r * 1000))) (Fin 0)"
      by (intro js_round_nonneg to_double_nonneg)
    with Some Fin show ?thesis by (simp add: delayMs_def)
  next
    case PInf
    with Some show ?thesis by (simp add: delayMs_def)
  next
    case NInf
    with d show ?thesis by simp
  next
    case NaN
    with d show ?thesis by simp
  qed
qed

section \<open>The reveal schedule\<close>

text \<open>
  C3, as the code has it. For every message list the schedule has one entry per
  message, in input order (the ids are those of the messages), and the \<open>at\<close> of entry
  \<open>i\<close> is the running total, added from 0 in list order, of the delays of the
  messages \<open>0..i-1\<close>. A message's own delay does not change its own \<open>at\<close>, whatever
  it is replaced by; it is added to get the next entry's \<open>at\<close>. The delay of a message
  is \<^verbatim>\<open>Math.round(delay_s * 1000)\<close>, with 3 for an absent \<open>delay_s\<close>: it is 3000 ms
  when \<open>delay_s\<close> is absent, a whole number of milliseconds whenever it is finite
  (\<open>k\<close> thousand for \<open>k\<close> whole seconds, as long as that is below \<open>2 ^ 53\<close> in
  size), NaN for a NaN \<open>delay_s\<close>, and Infinity when the product overflows.
\<close>

theorem schedule_running_total:
  "length (schedule ms) = length ms
   \<and> map entry_id (schedule ms) = map msg_id ms
   \<and> (\<forall>i < length ms.
        at_ms (schedule ms ! i) = foldl js_add (Fin 0) (map delayMs (take i ms)))
   \<and> (\<forall>i < length ms. \<forall>d.
        at_ms (schedule (ms[i := (ms ! i)\<lparr>delay_s := d\<rparr>]) ! i) = at_ms (schedule ms ! i))
   \<and> (\<forall>i. Suc i < length ms \<longrightarrow>
        at_ms (schedule ms ! Suc i) = js_add (at_ms (schedule ms ! i)) (delayMs (ms ! i)))
   \<and> (\<forall>m. delayMs m
        = js_round (js_mul (case delay_s m of None \<Rightarrow> Fin 3 | Some d \<Rightarrow> d) (Fin 1000)))
   \<and> (\<forall>m. delay_s m = None \<longrightarrow> delayMs m = Fin 3000)
   \<and> (\<forall>m r. delayMs m = Fin r \<longrightarrow> (\<exists>k::int. r = of_int k))
   \<and> (\<forall>m k. delay_s m = Some (Fin (of_int k)) \<and> \<bar>k * 1000\<bar> < 2 ^ 53 \<longrightarrow>
        delayMs m = Fin (of_int (k * 1000)))
   \<and> (\<forall>m. delay_s m = Some NaN \<longrightarrow> delayMs m = NaN)
   \<and> (\<forall>m r. delay_s m = Some (Fin r) \<and> 2 ^ 1024 - 2 ^ 970 \<le> r * 1000 \<longrightarrow>
        delayMs m = PInf)"
proof -
  have own: "at_ms (schedule (ms[i := (ms ! i)\<lparr>delay_s := d\<rparr>]) ! i) = at_ms (schedule ms ! i)"
    if "i < length ms" for i d
    using that by (simp add: schedule_def at_schedule_from)
  have nxt: "at_ms (schedule ms ! Suc i) = js_add (at_ms (schedule ms ! i)) (delayMs (ms ! i))"
    if "Suc i < length ms" for i
    using that by (simp add: schedule_def at_schedule_from take_Suc_conv_app_nth)
  have used: "delayMs m
      = js_round (js_mul (case delay_s m of None \<Rightarrow> Fin 3 | Some d \<Rightarrow> d) (Fin 1000))" for m
    by (simp add: delayMs_def)
  have nan: "delayMs m = NaN" if "delay_s m = Some NaN" for m
    using that by (simp add: delayMs_def)
  have shape: "length (schedule ms) = length ms
      \<and> map entry_id (schedule ms) = map msg_id ms
      \<and> (\<forall>i < length ms.
           at_ms (schedule ms ! i) = foldl js_add (Fin 0) (map delayMs (take i ms)))"
    by (simp add: schedule_def length_schedule_from ids_schedule_from at_schedule_from)
  from shape own nxt used nan show ?thesis
    using delayMs_absent delayMs_whole delayMs_seconds delayMs_overflow
    by blast
qed

theorem schedule_running_total_witness:
  "map entry_id (schedule [example_message ''a'' (Some (Fin 2)),
       example_message ''b'' (Some (Fin 5)), example_message ''c'' None]) = [''a'', ''b'', ''c'']
   \<and> at_ms (schedule [example_message ''a'' (Some (Fin 2)),
       example_message ''b'' (Some (Fin 5)), example_message ''c'' None] ! 2) = Fin 7000
   \<and> at_ms (schedule [example_message ''a'' (Some (Fin 9)),
       example_message ''b'' (Some (Fin 5)), example_message ''c'' None] ! 0) = Fin 0
   \<and> delayMs (example_message ''a'' (Some (Fin 2))) = Fin 2000
   \<and> delayMs (example_message ''c'' None) = Fin 3000"
proof -
  let ?ms = "[example_message ''a'' (Some (Fin 2)),
       example_message ''b'' (Some (Fin 5)), example_message ''c'' None]"
  note th = schedule_running_total [of ?ms]
  have ids: "map entry_id (schedule ?ms) = [''a'', ''b'', ''c'']"
    using th by (simp add: example_message_def)
  have "delay_s (example_message ''a'' (Some (Fin 2))) = Some (Fin (of_int 2))
      \<and> \<bar>2 * 1000 :: int\<bar> < 2 ^ 53"
    by (simp add: example_message_def)
  with th have "delayMs (example_message ''a'' (Some (Fin 2))) = Fin (of_int (2 * 1000))"
    by blast
  then have d2: "delayMs (example_message ''a'' (Some (Fin 2))) = Fin 2000"
    by simp
  have "delay_s (example_message ''b'' (Some (Fin 5))) = Some (Fin (of_int 5))
      \<and> \<bar>5 * 1000 :: int\<bar> < 2 ^ 53"
    by (simp add: example_message_def)
  with th have "delayMs (example_message ''b'' (Some (Fin 5))) = Fin (of_int (5 * 1000))"
    by blast
  then have d5: "delayMs (example_message ''b'' (Some (Fin 5))) = Fin 5000"
    by simp
  have "delay_s (example_message ''c'' None) = None"
    by (simp add: example_message_def)
  with th have d3: "delayMs (example_message ''c'' None) = Fin 3000"
    by blast
  have "(2::nat) < length ?ms" by simp
  with th have "at_ms (schedule ?ms ! 2) = foldl js_add (Fin 0) (map delayMs (take 2 ?ms))"
    by blast
  then have at2: "at_ms (schedule ?ms ! 2) = Fin 7000"
    by (simp add: d2 d5 numeral_2_eq_2)
  have "(0::nat) < length ?ms" by simp
  with th have "at_ms (schedule (?ms[0 := (?ms ! 0)\<lparr>delay_s := Some (Fin 9)\<rparr>]) ! 0)
      = at_ms (schedule ?ms ! 0)"
    by blast
  moreover have "0 < length ?ms" by simp
  with th have "at_ms (schedule ?ms ! 0) = foldl js_add (Fin 0) (map delayMs (take 0 ?ms))"
    by blast
  ultimately have at0: "at_ms (schedule [example_message ''a'' (Some (Fin 9)),
       example_message ''b'' (Some (Fin 5)), example_message ''c'' None] ! 0) = Fin 0"
    by (simp add: example_message_def)
  from ids at2 at0 d2 d3 show ?thesis by simp
qed

text \<open>
  C3 as stated fails where a delay is not a finite number of milliseconds. With a NaN
  \<open>delay_s\<close> on the first message, the \<open>at\<close> values are 0, NaN, NaN. With the double
  \<open>2 ^ 1023\<close> as \<open>delay_s\<close>, the product with 1000 overflows, the delay is Infinity,
  and the \<open>at\<close> values are 0, Infinity: no running total of whole milliseconds.
\<close>

theorem schedule_running_total_counterexample:
  "map at_ms (schedule [example_message ''a'' (Some NaN), example_message ''b'' None,
       example_message ''c'' None]) = [Fin 0, NaN, NaN]
   \<and> delayMs (example_message ''a'' (Some (Fin (2 ^ 1023)))) = PInf
   \<and> map at_ms (schedule [example_message ''a'' (Some (Fin (2 ^ 1023))),
       example_message ''b'' None]) = [Fin 0, PInf]"
proof -
  have nan: "delayMs (example_message ''a'' (Some NaN)) = NaN"
    by (simp add: delayMs_def example_message_def)
  have absent: "delayMs (example_message ''b'' None) = Fin 3000"
    by (rule delayMs_absent) (simp add: example_message_def)
  have "delay_s (example_message ''a'' (Some (Fin (2 ^ 1023)))) = Some (Fin (2 ^ 1023))"
    by (simp add: example_message_def)
  then have inf: "delayMs (example_message ''a'' (Some (Fin (2 ^ 1023)))) = PInf"
    by (rule delayMs_overflow) simp
  from nan absent inf show ?thesis
    by (simp add: schedule_def)
qed

text \<open>
  C10. For every non-empty message list the first entry's \<open>at\<close> is 0, whatever the
  first message's delay, and the first message is counted visible at every time that
  is at least 0.
\<close>

theorem first_message_visible:
  "ms \<noteq> [] \<Longrightarrow>
   at_ms (schedule ms ! 0) = Fin 0
   \<and> (\<forall>d. at_ms (schedule (ms[0 := (ms ! 0)\<lparr>delay_s := d\<rparr>]) ! 0) = Fin 0)
   \<and> (js_ge tm (Fin 0) \<longrightarrow> 1 \<le> visibleCount (schedule ms) tm)"
proof -
  assume "ms \<noteq> []"
  then obtain m rest where ms: "ms = m # rest" by (cases ms) auto
  have "js_ge tm (js_sub (Fin 0) (Fin 5))" if "js_ge tm (Fin 0)"
    using that by (cases tm) (auto simp: js_sub_def)
  with ms show ?thesis
    by (simp add: schedule_def visibleCount_takeWhile)
qed

theorem first_message_visible_witness:
  "[example_message ''a'' (Some (Fin 9))] \<noteq> []
   \<and> js_ge (Fin 0) (Fin 0)
   \<and> 1 \<le> visibleCount (schedule [example_message ''a'' (Some (Fin 9))]) (Fin 0)"
  using first_message_visible [of "[example_message ''a'' (Some (Fin 9))]" "Fin 0"]
  by simp

text \<open>
  C4, as the code has it. The delay is exactly 3000 ms when \<open>delay_s\<close> is absent. A
  present \<open>delay_s\<close> is used as \<^verbatim>\<open>Math.round(delay_s * 1000)\<close>, with no test for a
  finite value and no clamp: NaN stays NaN, an infinite delay stays infinite, and a
  delay of -0.001 s or less gives a negative step, which is added to the running
  total like any other. For every message list each of whose present delays is at
  least 0 (so neither NaN nor negative), the \<open>at\<close> values are non-decreasing in list
  order.
\<close>

theorem schedule_default_monotone:
  "(\<forall>m. delay_s m = None \<longrightarrow> delayMs m = Fin 3000)
   \<and> (\<forall>m d. delay_s m = Some d \<longrightarrow> delayMs m = js_round (js_mul d (Fin 1000)))
   \<and> (\<forall>m. delay_s m = Some NaN \<longrightarrow> delayMs m = NaN)
   \<and> (\<forall>m. delay_s m = Some PInf \<longrightarrow> delayMs m = PInf)
   \<and> (\<forall>m. delay_s m = Some NInf \<longrightarrow> delayMs m = NInf)
   \<and> (\<forall>m r. delay_s m = Some (Fin r) \<and> r \<le> - (1 / 1000) \<longrightarrow>
        \<not> js_ge (delayMs m) (Fin 0))
   \<and> (\<forall>i. Suc i < length ms \<longrightarrow>
        at_ms (schedule ms ! Suc i) = js_add (at_ms (schedule ms ! i)) (delayMs (ms ! i)))
   \<and> ((\<forall>m \<in> set ms. case delay_s m of None \<Rightarrow> True | Some d \<Rightarrow> js_ge d (Fin 0))
        \<longrightarrow> sorted_wrt js_le (map at_ms (schedule ms)))"
proof -
  have srt: "sorted_wrt js_le (map at_ms (schedule ms))"
    if "\<forall>m \<in> set ms. case delay_s m of None \<Rightarrow> True | Some d \<Rightarrow> js_ge d (Fin 0)"
  proof -
    from that have "\<forall>m \<in> set ms. js_ge (delayMs m) (Fin 0)"
      using delayMs_nonneg by blast
    then show ?thesis
      unfolding schedule_def by (intro schedule_from_sorted) simp_all
  qed
  have nxt: "at_ms (schedule ms ! Suc i) = js_add (at_ms (schedule ms ! i)) (delayMs (ms ! i))"
    if "Suc i < length ms" for i
    using that by (simp add: schedule_def at_schedule_from take_Suc_conv_app_nth)
  have nonfinite: "(\<forall>m. delay_s m = Some NaN \<longrightarrow> delayMs m = NaN)
      \<and> (\<forall>m. delay_s m = Some PInf \<longrightarrow> delayMs m = PInf)
      \<and> (\<forall>m. delay_s m = Some NInf \<longrightarrow> delayMs m = NInf)"
    by (simp add: delayMs_def)
  from srt nxt nonfinite show ?thesis
    using delayMs_absent delayMs_present delayMs_negative
    by blast
qed

theorem schedule_default_monotone_witness:
  "delay_s (example_message ''b'' None) = None
   \<and> delayMs (example_message ''b'' None) = Fin 3000
   \<and> delayMs (example_message ''a'' (Some NaN)) = NaN
   \<and> \<not> js_ge (delayMs (example_message ''a'' (Some (Fin (- 1))))) (Fin 0)
   \<and> sorted_wrt js_le (map at_ms
        (schedule [example_message ''a'' (Some (Fin 2)), example_message ''b'' None]))"
proof -
  let ?ms = "[example_message ''a'' (Some (Fin 2)), example_message ''b'' None]"
  note th = schedule_default_monotone [of ?ms]
  have h: "\<forall>m \<in> set ?ms. case delay_s m of None \<Rightarrow> True | Some d \<Rightarrow> js_ge d (Fin 0)"
    by (simp add: example_message_def)
  have n: "delay_s (example_message ''b'' None) = None"
    by (simp add: example_message_def)
  have "delay_s (example_message ''a'' (Some NaN)) = Some NaN"
    by (simp add: example_message_def)
  with th have nan: "delayMs (example_message ''a'' (Some NaN)) = NaN"
    by blast
  have "delay_s (example_message ''a'' (Some (Fin (- 1)))) = Some (Fin (- 1))
      \<and> (- 1 :: rat) \<le> - (1 / 1000)"
    by (simp add: example_message_def)
  with th have neg: "\<not> js_ge (delayMs (example_message ''a'' (Some (Fin (- 1))))) (Fin 0)"
    by blast
  from h n th have "delayMs (example_message ''b'' None) = Fin 3000
      \<and> sorted_wrt js_le (map at_ms (schedule ?ms))"
    by blast
  with n nan neg show ?thesis by blast
qed

text \<open>
  C4 as stated fails: a NaN delay is not replaced by 3000 ms, a delay of -1 s is used
  as -1000 ms, and the \<open>at\<close> values 0, -1000 of that list decrease.
\<close>

theorem schedule_clamp_counterexample:
  "delayMs (example_message ''a'' (Some NaN)) \<noteq> Fin 3000
   \<and> delayMs (example_message ''a'' (Some (Fin (- 1)))) = Fin (- 1000)
   \<and> map at_ms (schedule [example_message ''a'' (Some (Fin (- 1))), example_message ''b'' None])
       = [Fin 0, Fin (- 1000)]
   \<and> \<not> sorted_wrt js_le (map at_ms
        (schedule [example_message ''a'' (Some (Fin (- 1))), example_message ''b'' None]))"
  by (simp add: schedule_def delayMs_def example_message_def js_le_def
      to_double_numeral to_double_neg_numeral floor_rat_numeral floor_rat_neg_numeral)


section \<open>The visible count\<close>

lemma visibleCount_le_add:
  "visibleCount sched tm = length (takeWhile (\<lambda>e. js_le (at_ms e) (js_add tm (Fin 5))) sched)"
  by (simp add: visibleCount_takeWhile js_ge_sub_iff_le_add)

lemma length_takeWhile_mono:
  "(\<And>x. x \<in> set xs \<Longrightarrow> P x \<Longrightarrow> Q x) \<Longrightarrow> length (takeWhile P xs) \<le> length (takeWhile Q xs)"
  by (induction xs) auto

lemma js_le_refl_right: "js_le a b \<Longrightarrow> js_le b b"
  by (cases a; cases b) (auto simp: js_le_def)

lemma js_le_within_tolerance: "js_le a b \<Longrightarrow> js_ge b (js_sub a (Fin 5))"
  by (cases a; cases b) (auto simp: js_le_def js_sub_def)

lemma sorted_wrt_le_last:
  "sorted_wrt R xs \<Longrightarrow> xs \<noteq> [] \<Longrightarrow> R (last xs) (last xs) \<Longrightarrow> \<forall>x \<in> set xs. R x (last xs)"
  by (induction xs) auto

text \<open>
  C2, as the code has it. \<open>visibleCount\<close> is the number of leading entries of the
  schedule whose \<open>at\<close> is at most the time plus 5 ms: it stops at the first entry
  that is later. For every schedule whose \<open>at\<close> values are non-decreasing this is the
  count of all entries whose \<open>at\<close> is at most the time plus 5 ms. For a schedule with
  the \<open>at\<close> values 0, 2000, 7000 it is 2 at time 2500, still 2 at time 6994, and 3 at
  time 6999 (within 5 ms of 7000) and at time 7000.
\<close>

theorem visibleCount_prefix_count:
  "visibleCount sched tm = length (takeWhile (\<lambda>e. js_le (at_ms e) (js_add tm (Fin 5))) sched)
   \<and> (sorted_wrt js_le (map at_ms sched) \<longrightarrow>
        visibleCount sched tm = length (filter (\<lambda>e. js_le (at_ms e) (js_add tm (Fin 5))) sched))
   \<and> (map at_ms sched = [Fin 0, Fin 2000, Fin 7000] \<longrightarrow>
        visibleCount sched (Fin 2500) = 2 \<and> visibleCount sched (Fin 6994) = 2
        \<and> visibleCount sched (Fin 6999) = 3 \<and> visibleCount sched (Fin 7000) = 3)"
proof -
  have counted: "visibleCount sched tm
      = length (filter (\<lambda>e. js_le (at_ms e) (js_add tm (Fin 5))) sched)"
    if "sorted_wrt js_le (map at_ms sched)"
    using takeWhile_eq_filter_sorted [OF that] by (simp add: visibleCount_le_add)
  have example: "visibleCount sched (Fin 2500) = 2 \<and> visibleCount sched (Fin 6994) = 2
      \<and> visibleCount sched (Fin 6999) = 3 \<and> visibleCount sched (Fin 7000) = 3"
    if "map at_ms sched = [Fin 0, Fin 2000, Fin 7000]"
  proof -
    from that obtain a b c where "sched = [a, b, c]"
      and "at_ms a = Fin 0" and "at_ms b = Fin 2000" and "at_ms c = Fin 7000"
      by (auto simp: map_eq_Cons_conv)
    then show ?thesis
      by (simp add: visibleCount_le_add js_le_def)
  qed
  from counted example show ?thesis
    by (simp add: visibleCount_le_add)
qed

theorem visibleCount_prefix_count_witness:
  "map at_ms (schedule [example_message ''a'' (Some (Fin 2)),
       example_message ''b'' (Some (Fin 5)), example_message ''c'' None])
     = [Fin 0, Fin 2000, Fin 7000]
   \<and> sorted_wrt js_le (map at_ms (schedule [example_message ''a'' (Some (Fin 2)),
       example_message ''b'' (Some (Fin 5)), example_message ''c'' None]))
   \<and> visibleCount (schedule [example_message ''a'' (Some (Fin 2)),
       example_message ''b'' (Some (Fin 5)), example_message ''c'' None]) (Fin 2500) = 2
   \<and> visibleCount (schedule [example_message ''a'' (Some (Fin 2)),
       example_message ''b'' (Some (Fin 5)), example_message ''c'' None]) (Fin 6999) = 3
   \<and> length (filter (\<lambda>e. js_le (at_ms e) (js_add (Fin 2500) (Fin 5)))
       (schedule [example_message ''a'' (Some (Fin 2)),
          example_message ''b'' (Some (Fin 5)), example_message ''c'' None])) = 2"
proof -
  let ?s = "schedule [example_message ''a'' (Some (Fin 2)),
       example_message ''b'' (Some (Fin 5)), example_message ''c'' None]"
  have ats: "map at_ms ?s = [Fin 0, Fin 2000, Fin 7000]"
    by (simp add: schedule_def delayMs_def example_message_def to_double_numeral floor_rat_numeral)
  then have srt: "sorted_wrt js_le (map at_ms ?s)"
    by (simp add: js_le_def)
  from ats srt show ?thesis
    using visibleCount_prefix_count [of ?s "Fin 2500"] by simp
qed

text \<open>
  C2 as stated fails. For the messages with the delays 2 s, 5 s and none the \<open>at\<close>
  values are 0, 2000, 7000, and at time 6999 \<open>visibleCount\<close> is 3, not 2: 7000 is
  within 5 ms of 6999. And on a schedule that is not non-decreasing the result is not
  the count: the delays 5 s, -5 s give the \<open>at\<close> values 0, 5000, 0; at time 0
  \<open>visibleCount\<close> is 1, while two entries, the first and the third, have their \<open>at\<close>
  within 5 ms of the time.
\<close>

theorem visibleCount_count_counterexample:
  "map at_ms (schedule [example_message ''a'' (Some (Fin 2)),
       example_message ''b'' (Some (Fin 5)), example_message ''c'' None])
     = [Fin 0, Fin 2000, Fin 7000]
   \<and> visibleCount (schedule [example_message ''a'' (Some (Fin 2)),
       example_message ''b'' (Some (Fin 5)), example_message ''c'' None]) (Fin 6999) \<noteq> 2
   \<and> map at_ms (schedule [example_message ''a'' (Some (Fin 5)),
       example_message ''b'' (Some (Fin (- 5))), example_message ''c'' None])
     = [Fin 0, Fin 5000, Fin 0]
   \<and> visibleCount (schedule [example_message ''a'' (Some (Fin 5)),
       example_message ''b'' (Some (Fin (- 5))), example_message ''c'' None]) (Fin 0) = 1
   \<and> js_le (at_ms (schedule [example_message ''a'' (Some (Fin 5)),
       example_message ''b'' (Some (Fin (- 5))), example_message ''c'' None] ! 0))
       (js_add (Fin 0) (Fin 5))
   \<and> js_le (at_ms (schedule [example_message ''a'' (Some (Fin 5)),
       example_message ''b'' (Some (Fin (- 5))), example_message ''c'' None] ! 2))
       (js_add (Fin 0) (Fin 5))"
  by (simp add: visibleCount_takeWhile schedule_def delayMs_def example_message_def
      js_le_def js_sub_def to_double_numeral to_double_neg_numeral floor_rat_numeral
      floor_rat_neg_numeral numeral_2_eq_2)

text \<open>
  C6, as the code has it. For every schedule \<open>visibleCount\<close> is non-decreasing in the
  time. For every non-empty message list each of whose present delays is at least 0
  (so that the \<open>at\<close> values are non-decreasing), \<open>visibleCount\<close> at the last entry's
  \<open>at\<close> is the length of the schedule.
\<close>

theorem visibleCount_mono_and_full:
  "(js_le t1 t2 \<longrightarrow> visibleCount sched t1 \<le> visibleCount sched t2)
   \<and> (ms \<noteq> [] \<and> (\<forall>m \<in> set ms. case delay_s m of None \<Rightarrow> True | Some d \<Rightarrow> js_ge d (Fin 0))
        \<longrightarrow> visibleCount (schedule ms) (at_ms (last (schedule ms))) = length (schedule ms))"
proof -
  have mono: "visibleCount sched t1 \<le> visibleCount sched t2" if "js_le t1 t2"
    unfolding visibleCount_takeWhile
    by (rule length_takeWhile_mono) (rule js_ge_mono_left [OF that])
  have full: "visibleCount (schedule ms) (at_ms (last (schedule ms))) = length (schedule ms)"
    if ne: "ms \<noteq> []"
      and nonneg: "\<forall>m \<in> set ms. case delay_s m of None \<Rightarrow> True | Some d \<Rightarrow> js_ge d (Fin 0)"
  proof -
    let ?s = "schedule ms"
    from nonneg have d: "\<forall>m \<in> set ms. js_ge (delayMs m) (Fin 0)"
      using delayMs_nonneg by blast
    have z: "js_ge (Fin 0) (Fin 0)" by simp
    have srt: "sorted_wrt js_le (map at_ms ?s)"
      unfolding schedule_def by (rule schedule_from_sorted [OF z d])
    from ne have ne': "?s \<noteq> []"
      by (cases ms) (simp_all add: schedule_def)
    then have "last ?s \<in> set ?s" by simp
    with schedule_from_bounds [OF z d] have "js_le (Fin 0) (at_ms (last ?s))"
      by (simp add: schedule_def)
    then have "js_le (at_ms (last ?s)) (at_ms (last ?s))"
      by (rule js_le_refl_right)
    with ne' have "js_le (last (map at_ms ?s)) (last (map at_ms ?s))"
      by (simp add: last_map)
    with sorted_wrt_le_last [OF srt] ne'
    have "\<forall>x \<in> set (map at_ms ?s). js_le x (last (map at_ms ?s))"
      by simp
    with ne' have "\<forall>e \<in> set ?s. js_le (at_ms e) (at_ms (last ?s))"
      by (simp add: last_map)
    then have "\<forall>e \<in> set ?s. js_ge (at_ms (last ?s)) (js_sub (at_ms e) (Fin 5))"
      using js_le_within_tolerance by blast
    then have "takeWhile (\<lambda>e. js_ge (at_ms (last ?s)) (js_sub (at_ms e) (Fin 5))) ?s = ?s"
      by (rule takeWhile_eq_all_conv [THEN iffD2])
    then show ?thesis
      by (simp only: visibleCount_takeWhile)
  qed
  from mono full show ?thesis by blast
qed

theorem visibleCount_mono_and_full_witness:
  "js_le (Fin 2500) (Fin 7000)
   \<and> [example_message ''a'' (Some (Fin 2)), example_message ''b'' None] \<noteq> []
   \<and> visibleCount (schedule [example_message ''a'' (Some (Fin 2)), example_message ''b'' None])
        (Fin 2500)
      \<le> visibleCount (schedule [example_message ''a'' (Some (Fin 2)), example_message ''b'' None])
        (Fin 7000)
   \<and> visibleCount (schedule [example_message ''a'' (Some (Fin 2)), example_message ''b'' None])
        (at_ms (last (schedule [example_message ''a'' (Some (Fin 2)), example_message ''b'' None])))
      = length (schedule [example_message ''a'' (Some (Fin 2)), example_message ''b'' None])"
proof -
  let ?ms = "[example_message ''a'' (Some (Fin 2)), example_message ''b'' None]"
  have le: "js_le (Fin 2500) (Fin 7000)"
    by (simp add: js_le_def)
  have ne: "?ms \<noteq> []" by simp
  have nonneg: "\<forall>m \<in> set ?ms. case delay_s m of None \<Rightarrow> True | Some d \<Rightarrow> js_ge d (Fin 0)"
    by (simp add: example_message_def)
  from le ne nonneg show ?thesis
    using visibleCount_mono_and_full [of "Fin 2500" "Fin 7000" "schedule ?ms" ?ms]
    by blast
qed

text \<open>
  C6 as stated fails for a message list with a negative delay: the delays 5 s, -5 s
  give the \<open>at\<close> values 0, 5000, 0, and at the last entry's \<open>at\<close>, which is 0,
  \<open>visibleCount\<close> is 1 while the schedule has 3 entries.
\<close>

theorem visibleCount_last_counterexample:
  "[example_message ''a'' (Some (Fin 5)), example_message ''b'' (Some (Fin (- 5))),
      example_message ''c'' None] \<noteq> []
   \<and> at_ms (last (schedule [example_message ''a'' (Some (Fin 5)),
        example_message ''b'' (Some (Fin (- 5))), example_message ''c'' None])) = Fin 0
   \<and> visibleCount (schedule [example_message ''a'' (Some (Fin 5)),
        example_message ''b'' (Some (Fin (- 5))), example_message ''c'' None])
       (at_ms (last (schedule [example_message ''a'' (Some (Fin 5)),
        example_message ''b'' (Some (Fin (- 5))), example_message ''c'' None]))) = 1
   \<and> length (schedule [example_message ''a'' (Some (Fin 5)),
        example_message ''b'' (Some (Fin (- 5))), example_message ''c'' None]) = 3"
  by (simp add: visibleCount_takeWhile schedule_def delayMs_def example_message_def
      js_sub_def to_double_numeral to_double_neg_numeral floor_rat_numeral
      floor_rat_neg_numeral)


section \<open>The export schedule\<close>

lemma messagesForExport_nth:
  "i < length messages \<Longrightarrow>
   messagesForExport messages audioDurations ! i
     = (messages ! i)\<lparr>delay_s := Some (Fin (exportDelay (audioDurationAt audioDurations i)))\<rparr>"
  by (simp add: messagesForExport_def)

text \<open>
  C5. Given one measured duration per message, the export message list has the
  length of the input, and its message \<open>i\<close> is the input message \<open>i\<close> with only
  \<open>delay_s\<close> replaced, by the maximum of 0.01 and the hundredth part of the message's
  own duration divided by 10 and rounded. No delay of the result is below 0.01, and
  the durations 1234 ms and 2000 ms give the delays 1.23 and 2.
\<close>

theorem messagesForExport_delays:
  "length audioDurations = length messages \<Longrightarrow>
   length (messagesForExport messages audioDurations) = length messages
   \<and> (\<forall>i < length messages.
        messagesForExport messages audioDurations ! i
          = (messages ! i)\<lparr>delay_s :=
              Some (Fin (max (1 / 100)
                (of_int \<lfloor>(of_int (audioDurations ! i) :: rat) / 10 + 1 / 2\<rfloor> / 100)))\<rparr>)
   \<and> (\<forall>m \<in> set (messagesForExport messages audioDurations).
        \<exists>r. delay_s m = Some (Fin r) \<and> 1 / 100 \<le> r)
   \<and> map delay_s (messagesForExport [m1, m2] [1234, 2000])
        = [Some (Fin (123 / 100)), Some (Fin 2)]"
proof -
  assume len: "length audioDurations = length messages"
  have nth: "messagesForExport messages audioDurations ! i
      = (messages ! i)\<lparr>delay_s :=
          Some (Fin (max (1 / 100)
            (of_int \<lfloor>(of_int (audioDurations ! i) :: rat) / 10 + 1 / 2\<rfloor> / 100)))\<rparr>"
    if "i < length messages" for i
    using that len by (simp add: messagesForExport_nth exportDelay_def audioDurationAt_def)
  have floor_: "\<exists>r. delay_s m = Some (Fin r) \<and> 1 / 100 \<le> r"
    if "m \<in> set (messagesForExport messages audioDurations)" for m
    using that by (auto simp: messagesForExport_def exportDelay_def)
  have two: "map delay_s (messagesForExport [m1, m2] [1234, 2000])
      = [Some (Fin (123 / 100)), Some (Fin 2)]"
    by (simp add: messagesForExport_def exportDelay_def audioDurationAt_def floor_rat_numeral
        upt_rec [of 0] upt_rec [of "Suc 0"])
  from nth floor_ two show ?thesis
    by (simp add: messagesForExport_def)
qed

theorem messagesForExport_delays_witness:
  "length [1234, 2000 :: int]
     = length [example_message ''a'' None, example_message ''b'' (Some (Fin 7))]
   \<and> messagesForExport [example_message ''a'' None, example_message ''b'' (Some (Fin 7))]
        [1234, 2000]
     = [example_message ''a'' (Some (Fin (123 / 100))), example_message ''b'' (Some (Fin 2))]"
proof -
  let ?ms = "[example_message ''a'' None, example_message ''b'' (Some (Fin 7))]"
  let ?ds = "[1234, 2000 :: int]"
  have len: "length ?ds = length ?ms" by simp
  note th = messagesForExport_delays [OF len]
  from th have l: "length (messagesForExport ?ms ?ds) = 2" by simp
  have "(0::nat) < length ?ms" by simp
  with th have e0: "messagesForExport ?ms ?ds ! 0
      = example_message ''a'' (Some (Fin (123 / 100)))"
    by (simp add: example_message_def floor_rat_numeral)
  have "(1::nat) < length ?ms" by simp
  with th have "messagesForExport ?ms ?ds ! 1
      = (?ms ! 1)\<lparr>delay_s :=
          Some (Fin (max (1 / 100) (of_int \<lfloor>(of_int (?ds ! 1) :: rat) / 10 + 1 / 2\<rfloor> / 100)))\<rparr>"
    by blast
  then have e1: "messagesForExport ?ms ?ds ! 1 = example_message ''b'' (Some (Fin 2))"
    by (simp add: example_message_def floor_rat_numeral)
  have "messagesForExport ?ms ?ds
      = [messagesForExport ?ms ?ds ! 0, messagesForExport ?ms ?ds ! 1]"
    using l by (cases "messagesForExport ?ms ?ds" rule: list.exhaust)
      (auto simp: length_Suc_conv)
  with e0 e1 len show ?thesis by simp
qed

section \<open>The presentation surface\<close>

text \<open>
  C9. For an empty message list the chat body holds the time separator and no bubble,
  at every time, in the preview and in the export view alike; the visible count is 0.
  For any message list the time separator is the first row.
\<close>

theorem empty_messages_render:
  "chatRows timeLine [] tm = [TimeSeparator timeLine]
   \<and> chatRows timeLine [] (timeMs exportMode timeOverrideMs t0) = [TimeSeparator timeLine]
   \<and> exportView timeLine [] k = [TimeSeparator timeLine]
   \<and> visibleCount (schedule []) tm = 0
   \<and> hd (chatRows timeLine messages tm) = TimeSeparator timeLine"
  by (simp add: chatRows_def exportView_def schedule_def visibleCount_takeWhile)


section \<open>The frame capture loop\<close>

lemma dt_value: "dt = 33"
  by (simp add: dt_def fps_def floor_rat_numeral)

lemma exportTimelineMs_value: "exportTimelineMs naturalTotalMs i = min naturalTotalMs (i * 33)"
proof -
  have "\<lfloor>(of_int (i * 33) :: rat) + 1 / 2\<rfloor> = i * 33"
    by (rule floor_unique) simp_all
  then show ?thesis
    by (simp add: exportTimelineMs_def dt_value)
qed

lemma totalFrames_value: "totalFrames naturalTotalMs = \<lceil>(of_int naturalTotalMs :: rat) / 33\<rceil>"
  by (simp add: totalFrames_def dt_value)

lemma totalFrames_covers: "naturalTotalMs \<le> totalFrames naturalTotalMs * 33"
proof -
  have "(of_int naturalTotalMs :: rat) / 33 \<le> of_int (totalFrames naturalTotalMs)"
    unfolding totalFrames_value by (rule le_of_int_ceiling)
  then have "(of_int naturalTotalMs :: rat) \<le> of_int (totalFrames naturalTotalMs * 33)"
    by simp
  then show ?thesis
    by (simp only: of_int_le_iff)
qed

lemma totalFrames_nonneg: "0 \<le> naturalTotalMs \<Longrightarrow> 0 \<le> totalFrames naturalTotalMs"
  by (simp add: totalFrames_value)

lemma captureLoop_all_captured:
  "(\<forall>j. i \<le> j \<and> j \<le> totalFrames naturalTotalMs \<longrightarrow>
        capture (exportTimelineMs naturalTotalMs j) = Some (img j)) \<Longrightarrow>
   captureLoop capture naturalTotalMs i frames
     = (map (exportTimelineMs naturalTotalMs) [i .. totalFrames naturalTotalMs],
        Inr (frames @ map img [i .. totalFrames naturalTotalMs]))"
proof (induction capture naturalTotalMs i frames rule: captureLoop.induct)
  case (1 capture naturalTotalMs i frames)
  show ?case
  proof (cases "i \<le> totalFrames naturalTotalMs")
    case True
    with 1(2) have here: "capture (exportTimelineMs naturalTotalMs i) = Some (img i)"
      by simp
    from 1(2) have later: "\<forall>j. i + 1 \<le> j \<and> j \<le> totalFrames naturalTotalMs \<longrightarrow>
        capture (exportTimelineMs naturalTotalMs j) = Some (img j)"
      by simp
    from True have unfold: "[i .. totalFrames naturalTotalMs]
        = i # [i + 1 .. totalFrames naturalTotalMs]"
      by (rule upto_rec1)
    from 1(1) [OF True here later]
    have "captureLoop capture naturalTotalMs (i + 1) (frames @ [img i])
        = (map (exportTimelineMs naturalTotalMs) [i + 1 .. totalFrames naturalTotalMs],
           Inr ((frames @ [img i]) @ map img [i + 1 .. totalFrames naturalTotalMs]))" .
    with True here unfold show ?thesis
      by (subst captureLoop.simps) simp
  next
    case False
    then show ?thesis
      by (subst captureLoop.simps) simp
  qed
qed

text \<open>
  The loop taken by itself. The frame rate is fixed at 30 and the step is the rounded
  \<open>dt = 33\<close> ms. For every total duration that is at least 0, when every capture gives
  a blob, the loop performs the steps \<open>i = 0, 1, ..., \<lceil>durationMs / 33\<rceil>\<close>, each once
  and in increasing order, sets the export clock at step \<open>i\<close> to
  \<open>min durationMs (i * 33)\<close>, and returns the frames captured at these clock values
  in that order: \<open>\<lceil>durationMs / 33\<rceil> + 1\<close> frames, the last at \<open>durationMs\<close> itself.
\<close>

lemma captureFrames_steps:
  "0 \<le> durationMs \<Longrightarrow>
   (\<forall>i. 0 \<le> i \<and> i \<le> \<lceil>(of_int durationMs :: rat) / 33\<rceil> \<longrightarrow>
        capture (min durationMs (i * 33)) = Some (img i)) \<Longrightarrow>
   fps = 30 \<and> dt = 33
   \<and> captureFrames capture durationMs
       = (map (\<lambda>i. min durationMs (i * 33)) [0 .. \<lceil>(of_int durationMs :: rat) / 33\<rceil>],
          Inr (map img [0 .. \<lceil>(of_int durationMs :: rat) / 33\<rceil>]))
   \<and> length (fst (captureFrames capture durationMs))
       = nat \<lceil>(of_int durationMs :: rat) / 33\<rceil> + 1
   \<and> last (fst (captureFrames capture durationMs)) = durationMs"
proof -
  assume nonneg: "0 \<le> durationMs"
  assume captured: "\<forall>i. 0 \<le> i \<and> i \<le> \<lceil>(of_int durationMs :: rat) / 33\<rceil> \<longrightarrow>
        capture (min durationMs (i * 33)) = Some (img i)"
  let ?n = "\<lceil>(of_int durationMs :: rat) / 33\<rceil>"
  from captured have "\<forall>j. 0 \<le> j \<and> j \<le> totalFrames durationMs \<longrightarrow>
        capture (exportTimelineMs durationMs j) = Some (img j)"
    by (simp add: totalFrames_value exportTimelineMs_value)
  from captureLoop_all_captured [OF this, of "[]"]
  have run: "captureFrames capture durationMs
      = (map (\<lambda>i. min durationMs (i * 33)) [0 .. ?n], Inr (map img [0 .. ?n]))"
    by (simp add: captureFrames_def totalFrames_value exportTimelineMs_value [abs_def])
  from nonneg have n0: "0 \<le> ?n"
    using totalFrames_nonneg [of durationMs] by (simp add: totalFrames_value)
  from n0 have "[0 .. ?n] \<noteq> []" by simp
  moreover from n0 have "last [0 .. ?n] = ?n"
    by (simp add: upto_rec2)
  ultimately have "last (map (\<lambda>i. min durationMs (i * 33)) [0 .. ?n]) = min durationMs (?n * 33)"
    by (simp add: last_map)
  also have "\<dots> = durationMs"
    using totalFrames_covers [of durationMs] by (simp add: totalFrames_value)
  finally have lst: "last (map (\<lambda>i. min durationMs (i * 33)) [0 .. ?n]) = durationMs" .
  from n0 have len': "length (map (\<lambda>i. min durationMs (i * 33)) [0 .. ?n]) = nat ?n + 1"
    by (simp add: nat_add_distrib)
  from run len' lst show ?thesis
    by (simp only: fps_def dt_value fst_conv simp_thms)
qed

text \<open>
  The export routine never reaches the loop. When synthesis has succeeded for every
  message, the root of the offscreen host is unmounted and then asked to render the
  second export host, which throws: the attempt ends in the \<^verbatim>\<open>catch\<close> block with
  no clock value set, ffmpeg not started and nothing downloaded, and the host stays
  in the page with its root unmounted.
\<close>

lemma exportMp4Exact_after_synthesis:
  assumes "\<not> exporting b"
    and "synthesizeAll (synthesizeSegment fetch decodeAudioData)
           (voiceFor senderVoice receiverVoice voices) messages [] [] []
         = (sent, Inr (audioSegBytes, audioDurations))"
  shows "exportMp4Exact fetch decodeAudioData toBlob encode
           senderVoice receiverVoice voices timeLine messages b
         = (\<lparr>requests = sent, clocks = [], encoded = False\<rparr>,
            b\<lparr>tab := EXPORT, exportNote := ''Export failed. See console.'',
              console := console b @ [Rejected ''Cannot update an unmounted root.''],
              exporting := False, offscreen := offscreen b @ [Unmounted],
              setExportTime := True\<rparr>)"
  using assms
  by (simp add: exportMp4Exact_def exportAttempt_def root_render_def root_unmount_def)

lemma exportMp4Exact_never_captures:
  "clocks (fst (exportMp4Exact fetch decodeAudioData toBlob encode
      senderVoice receiverVoice voices timeLine messages b)) = []
   \<and> \<not> encoded (fst (exportMp4Exact fetch decodeAudioData toBlob encode
      senderVoice receiverVoice voices timeLine messages b))
   \<and> downloads (snd (exportMp4Exact fetch decodeAudioData toBlob encode
      senderVoice receiverVoice voices timeLine messages b)) = downloads b"
  by (simp add: exportMp4Exact_def exportAttempt_def root_render_def root_unmount_def
      split: prod.splits sum.splits)

text \<open>
  C1, at a duration of 100 ms. The step is \<open>dt = 33\<close>, the rounded
  \<^verbatim>\<open>1000 / fps\<close>, so the loop, run by itself with every capture giving a blob, sets
  the clock to 0, 33, 66, 99, 100 and captures five frames, not the
  \<open>\<lfloor>100 / (1000 / 30)\<rfloor> + 1 = 4\<close> frames at 0, 33, 67, 100. In the export routine the
  loop is not reached at all: for one message whose audio lasts a tenth of a second,
  the export ends in the \<^verbatim>\<open>catch\<close> block with no clock value set and no frame,
  because rendering on the unmounted root throws.
\<close>

theorem capture_at_100ms:
  "fps = 30 \<and> dt = 33
   \<and> captureFrames Some 100 = ([0, 33, 66, 99, 100], Inr [0, 33, 66, 99, 100])
   \<and> fst (captureFrames Some 100) \<noteq> [0, 33, 67, 100]
   \<and> int (length (fst (captureFrames Some 100))) \<noteq> \<lfloor>100 / (1000 / fps)\<rfloor> + 1
   \<and> synthesizeSegment example_fetch example_decode [] ''Hey, you free?'' ''adam''
       = ([(UserVoiceSpeech, ''adam'', ''Hey, you free?'')], Inr ([73, 68, 51], 100))
   \<and> exportMp4Exact example_fetch example_decode example_toBlob example_encode
         ''adam'' ''coral'' [] ''Today 7:42 PM'' [example_message ''a'' None] example_builder
       = (\<lparr>requests = [(UserVoiceSpeech, ''adam'', ''Hey, you free?'')],
            clocks = [], encoded = False\<rparr>,
          \<lparr>tab = EXPORT, exporting = False, exportNote = ''Export failed. See console.'',
            downloads = [], console = [Rejected ''Cannot update an unmounted root.''],
            offscreen = [Unmounted], setExportTime = True\<rparr>)"
proof -
  have run: "captureFrames Some 100 = ([0, 33, 66, 99, 100], Inr [0, 33, 66, 99, 100])"
    by code_simp
  have count: "\<lfloor>100 / (1000 / fps)\<rfloor> = 3"
    by (simp add: fps_def)
  have seg: "synthesizeSegment example_fetch example_decode [] ''Hey, you free?'' ''adam''
      = ([(UserVoiceSpeech, ''adam'', ''Hey, you free?'')], Inr ([73, 68, 51], 100))"
    by (simp add: synthesizeSegment_def example_fetch_def example_decode_def
        nearest_double_numeral floor_rat_numeral)
  have "exportMp4Exact example_fetch example_decode example_toBlob example_encode
         ''adam'' ''coral'' [] ''Today 7:42 PM'' [example_message ''a'' None] example_builder
       = (\<lparr>requests = [(UserVoiceSpeech, ''adam'', ''Hey, you free?'')],
            clocks = [], encoded = False\<rparr>,
          \<lparr>tab = EXPORT, exporting = False, exportNote = ''Export failed. See console.'',
            downloads = [], console = [Rejected ''Cannot update an unmounted root.''],
            offscreen = [Unmounted], setExportTime = True\<rparr>)"
    by (simp add: exportMp4Exact_def exportAttempt_def root_render_def root_unmount_def
        seg voiceFor_def example_message_def example_builder_def)
  with run count seg show ?thesis
    by (simp add: fps_def dt_value)
qed

section \<open>The export-driven clock\<close>

text \<open>
  What every state of a mounted export host satisfies: no animation frame is queued,
  no cancelling function is registered, playback is off and the internal time is 0.
\<close>

lemma runner_keeps_idle:
  "\<not> pending c \<Longrightarrow> \<not> cleanup c \<Longrightarrow>
   timelineRunner True (Some v) c = c"
  by (simp add: timelineRunner_def runCleanup_def)

lemma mount_idle:
  "host_clock mount_export_host
     = \<lparr>playing = False, t = Fin 0, startRef = None, pending = False, cleanup = False\<rparr>
   \<and> override mount_export_host = Fin 0"
  by (simp add: mount_export_host_def initial_clock_def timelineRunner_def runCleanup_def)

lemma host_step_idle:
  assumes "\<not> pending (host_clock h)" and "\<not> cleanup (host_clock h)"
    and "\<not> playing (host_clock h)" and "t (host_clock h) = Fin 0"
  shows "\<not> pending (host_clock (host_step h e)) \<and> \<not> cleanup (host_clock (host_step h e))
         \<and> \<not> playing (host_clock (host_step h e)) \<and> t (host_clock (host_step h e)) = Fin 0"
  using assms by (cases e) (simp_all add: runner_keeps_idle)

lemma run_host_idle:
  assumes "\<not> pending (host_clock h)" and "\<not> cleanup (host_clock h)"
    and "\<not> playing (host_clock h)" and "t (host_clock h) = Fin 0"
  shows "\<not> pending (host_clock (foldl host_step h es))
         \<and> \<not> cleanup (host_clock (foldl host_step h es))
         \<and> \<not> playing (host_clock (foldl host_step h es))
         \<and> t (host_clock (foldl host_step h es)) = Fin 0"
  using assms
proof (induction es arbitrary: h)
  case Nil
  then show ?case by simp
next
  case (Cons e es)
  from host_step_idle [OF Cons.prems, of e] show ?case
    by (simp add: Cons.IH)
qed

text \<open>
  C8. In export mode the timeline time is the override, for every override value and
  whatever the internal time is. In every state that a mounted export host reaches,
  by any sequence of its events, no animation frame is queued, the internal time is
  still 0 and the displayed time is the value of the override; setting the override
  to \<open>v\<close> makes the displayed time \<open>v\<close>; an animation frame coming due changes
  nothing, and neither it nor the reset timer changes the displayed time.
\<close>

theorem export_clock_driven:
  "timeMs True (Some v) tm = v
   \<and> (let h = foldl host_step mount_export_host es in
        \<not> pending (host_clock h)
        \<and> \<not> playing (host_clock h)
        \<and> t (host_clock h) = Fin 0
        \<and> host_timeMs h = override h
        \<and> host_timeMs (host_step h (SetExportTime v)) = v
        \<and> host_step h (AnimationFrame now) = h
        \<and> host_timeMs (host_step h (HeightReset now)) = host_timeMs h)"
proof -
  have "\<not> pending (host_clock (foldl host_step mount_export_host es))
      \<and> \<not> cleanup (host_clock (foldl host_step mount_export_host es))
      \<and> \<not> playing (host_clock (foldl host_step mount_export_host es))
      \<and> t (host_clock (foldl host_step mount_export_host es)) = Fin 0"
    by (rule run_host_idle) (simp_all add: mount_idle)
  then show ?thesis
    by (simp add: Let_def host_timeMs_def timeMs_def)
qed


section \<open>Failure of speech synthesis\<close>






end
